theory Spec2Isabelle
  imports Main
begin

section \<open>Strings and the regular expressions of schema.ts\<close>

text \<open>
  A JavaScript string is modelled as a \<^typ>\<open>string\<close>, one \<^typ>\<open>char\<close> per code unit
  (code units below 256). The three regular expressions of schema.ts have no quantifier
  but the \<open>(.*)\<close> of \<open>validSnippetRegex\<close>, and the alternatives of each of their
  alternations start with different characters, so that a match is decided from left to
  right without backtracking: the matchers below follow the patterns literally.
\<close>

definition LF :: char where
  "LF = CHR 0x0A"

text \<open>The class \<open>\s\<close> of a JavaScript regular expression, on code units below 256.\<close>

definition regex_space :: "char \<Rightarrow> bool" where
  "regex_space c =
     (c \<in> set [CHR 0x09, CHR 0x0A, CHR 0x0B, CHR 0x0C, CHR 0x0D, CHR 0x20, CHR 0xA0])"

text \<open>The characters that \<open>.\<close> does not match, on code units below 256.\<close>

definition line_terminator :: "char \<Rightarrow> bool" where
  "line_terminator c = (c \<in> set [CHR 0x0A, CHR 0x0D])"

text \<open>A literal of a pattern at the current position: the rest of the input after it.\<close>

fun strip_prefix :: "string \<Rightarrow> string \<Rightarrow> string option" where
  "strip_prefix [] s = Some s"
| "strip_prefix (p # ps) [] = None"
| "strip_prefix (p # ps) (c # cs) = (if p = c then strip_prefix ps cs else None)"

text \<open>An alternation of literals \<open>(a|b|c)\<close>: the first alternative that matches, and the rest.\<close>

fun matchAlt :: "string list \<Rightarrow> string \<Rightarrow> (string \<times> string) option" where
  "matchAlt [] s = None"
| "matchAlt (a # as) s =
     (case strip_prefix a s of Some r \<Rightarrow> Some (a, r) | None \<Rightarrow> matchAlt as s)"

text \<open>
  \<^verbatim>\<open>const validSnippetRegex = /^<!-- (?:begin snippet:|end snippet |language:)(.*)-->$/;\<close>
  After the alternation, \<open>(.*)-->$\<close> matches when the rest ends in \<open>-->\<close> and has no line
  terminator before it.
\<close>

definition validSnippetRegex :: "string \<Rightarrow> bool" where
  "validSnippetRegex l =
     (case strip_prefix ''<!-- '' l of
        None \<Rightarrow> False
      | Some r \<Rightarrow>
          (case matchAlt [''begin snippet:'', ''end snippet '', ''language:''] r of
             None \<Rightarrow> False
           | Some (a, r') \<Rightarrow>
               3 \<le> length r' \<and> drop (length r' - 3) r' = ''-->'' \<and>
               list_all (\<lambda>c. \<not> line_terminator c) (take (length r' - 3) r')))"

text \<open>
  \<^verbatim>\<open>const langSnippetRegex = /^<!-- language: lang-(?<lang>css|html|js) -->/;\<close>
  The result is the group \<open>lang\<close>. The pattern has no \<open>$\<close>: it matches a prefix of the line.
\<close>

definition langSnippetRegex :: "string \<Rightarrow> string option" where
  "langSnippetRegex l =
     (case strip_prefix ''<!-- language: lang-'' l of
        None \<Rightarrow> None
      | Some r \<Rightarrow>
          (case matchAlt [''css'', ''html'', ''js''] r of
             None \<Rightarrow> None
           | Some (lang, r') \<Rightarrow>
               (case strip_prefix '' -->'' r' of None \<Rightarrow> None | Some r'' \<Rightarrow> Some lang)))"

text \<open>
  One field of the begin marker, \<^verbatim>\<open>(?:hide: (?<hide>(?:true|false|null))\s)\<close>:
  the group and the rest of the input.
\<close>

definition matchField :: "string \<Rightarrow> string \<Rightarrow> (string \<times> string) option" where
  "matchField name s =
     (case strip_prefix (name @ '': '') s of
        None \<Rightarrow> None
      | Some r \<Rightarrow>
          (case matchAlt [''true'', ''false'', ''null''] r of
             None \<Rightarrow> None
           | Some (v, r') \<Rightarrow>
               (case r' of
                  [] \<Rightarrow> None
                | c # r'' \<Rightarrow> if regex_space c then Some (v, r'') else None)))"

text \<open>The named groups of a match of \<open>startSnippetRegex\<close>.\<close>

record StartGroups =
  g_hide :: string
  g_console :: string
  g_babel :: string
  g_babelPresetReact :: string
  g_babelPresetTS :: string

text \<open>
  \<^verbatim>\<open>const startSnippetRegex =
    /^<!-- begin snippet: js (?:hide: (?<hide>(?:true|false|null))\s)(?:console: (?<console>(?:true|false|null))\s)(?:babel: (?<babel>(?:true|false|null))\s)(?:babelPresetReact: (?<babelPresetReact>(?:true|false|null))\s)(?:babelPresetTS: (?<babelPresetTS>(?:true|false|null))\s)-->/;\<close>
\<close>

definition startSnippetRegex :: "string \<Rightarrow> StartGroups option" where
  "startSnippetRegex l =
     (case strip_prefix ''<!-- begin snippet: js '' l of
        None \<Rightarrow> None
      | Some r0 \<Rightarrow>
     (case matchField ''hide'' r0 of
        None \<Rightarrow> None
      | Some (h, r1) \<Rightarrow>
     (case matchField ''console'' r1 of
        None \<Rightarrow> None
      | Some (c, r2) \<Rightarrow>
     (case matchField ''babel'' r2 of
        None \<Rightarrow> None
      | Some (b, r3) \<Rightarrow>
     (case matchField ''babelPresetReact'' r3 of
        None \<Rightarrow> None
      | Some (re, r4) \<Rightarrow>
     (case matchField ''babelPresetTS'' r4 of
        None \<Rightarrow> None
      | Some (ts, r5) \<Rightarrow>
     (case strip_prefix ''-->'' r5 of
        None \<Rightarrow> None
      | Some r6 \<Rightarrow>
          Some \<lparr>g_hide = h, g_console = c, g_babel = b,
                g_babelPresetReact = re, g_babelPresetTS = ts\<rparr>)))))))"

section \<open>Meta-lines\<close>

text \<open>\<^verbatim>\<open>interface RawContext { line: string; index: number; }\<close>\<close>

record RawContext =
  rawLine :: string
  rawIndex :: nat

text \<open>
  \<^verbatim>\<open>type MetaLine = BeginMetaLine | EndMetaLine | LangMetaLine;\<close>
  The fields of \<open>Begin\<close> after the index are, in the order of the interface,
  \<open>babel\<close>, \<open>babelPresetReact\<close>, \<open>babelPresetTS\<close>, \<open>console\<close>, \<open>hide\<close>.
\<close>

datatype MetaLine =
    Begin (index: nat) (babel: string) (babelPresetReact: string) (babelPresetTS: string)
      (console: string) (hide: string)
  | End (index: nat)
  | Lang (index: nat) (language: string)

text \<open>A JavaScript string in a condition is true when it is not empty.\<close>

definition truthy :: "string \<Rightarrow> bool" where
  "truthy s = (s \<noteq> [])"

text \<open>\<^verbatim>\<open>x || "null"\<close>\<close>

definition orNull :: "string \<Rightarrow> string" where
  "orNull s = (if truthy s then s else ''null'')"

definition mapMetaLine :: "RawContext \<Rightarrow> MetaLine option" where
  "mapMetaLine rawContext =
     (let line = rawLine rawContext; index = rawIndex rawContext in
      if line = ''<!-- end snippet -->'' then Some (End index)
      else
        (case langSnippetRegex line of
           Some lang \<Rightarrow> Some (Lang index lang)
         | None \<Rightarrow>
             (case startSnippetRegex line of
                None \<Rightarrow> None
              | Some g \<Rightarrow>
                  if truthy (g_babel g) \<and> truthy (g_babelPresetReact g) \<and>
                     truthy (g_babelPresetTS g) \<and> truthy (g_console g) \<and> truthy (g_hide g)
                  then Some (Begin index (orNull (g_babel g)) (orNull (g_babelPresetReact g))
                               (orNull (g_babelPresetTS g)) (orNull (g_console g))
                               (orNull (g_hide g)))
                  else None)))"

section \<open>The region validator\<close>

text \<open>
  \<^verbatim>\<open>interface ValidationResult\<close>: an optional number is \<open>None\<close> when it is undefined,
  the reason is \<open>None\<close> when it is \<open>null\<close> or undefined.
\<close>

record ValidationResult =
  valid :: bool
  beginIndex :: "nat option"
  endIndex :: "nat option"
  htmlIndex :: "nat option"
  cssIndex :: "nat option"
  jsIndex :: "nat option"
  reason :: "string option"

text \<open>
  \<^verbatim>\<open>if (validationResult.beginIndex)\<close>: an optional number in a condition is true
  when it is defined and is not 0.
\<close>

definition truthyIndex :: "nat option \<Rightarrow> bool" where
  "truthyIndex i = (case i of None \<Rightarrow> False | Some n \<Rightarrow> n \<noteq> 0)"

text \<open>\<^verbatim>\<open>return { valid: false, reason: ... }\<close>\<close>

definition duplicate :: "string \<Rightarrow> ValidationResult" where
  "duplicate r =
     \<lparr>valid = False, beginIndex = None, endIndex = None, htmlIndex = None,
      cssIndex = None, jsIndex = None, reason = Some r\<rparr>"

text \<open>
  The body of the switch for one meta-line: \<open>Inl\<close> is the value returned from inside the
  loop, \<open>Inr\<close> the validation result after the \<open>break\<close> of the case.
\<close>

fun validateCase :: "ValidationResult \<Rightarrow> MetaLine \<Rightarrow> ValidationResult + ValidationResult" where
  "validateCase vr (Begin i b re ts c h) =
     (if truthyIndex (beginIndex vr) then Inl (duplicate ''Duplicate Begin block'')
      else Inr (vr\<lparr>beginIndex := Some i\<rparr>))"
| "validateCase vr (End i) =
     (if truthyIndex (endIndex vr) then Inl (duplicate ''Duplicate End block'')
      else Inr (vr\<lparr>endIndex := Some i\<rparr>))"
| "validateCase vr (Lang i lang) =
     (if lang = ''js'' then
        (if truthyIndex (jsIndex vr) then Inl (duplicate ''Duplicate JS block'')
         else Inr (vr\<lparr>jsIndex := Some i\<rparr>))
      else if lang = ''html'' then
        (if truthyIndex (htmlIndex vr) then Inl (duplicate ''Duplicate HTML block'')
         else Inr (vr\<lparr>htmlIndex := Some i\<rparr>))
      else if lang = ''css'' then
        (if truthyIndex (cssIndex vr) then Inl (duplicate ''Duplicate CSS block'')
         else Inr (vr\<lparr>cssIndex := Some i\<rparr>))
      else Inr vr)"

text \<open>The loop of \<open>validateMetaLines\<close> from the current meta-line on.\<close>

fun validateLoop :: "ValidationResult \<Rightarrow> MetaLine list \<Rightarrow> ValidationResult" where
  "validateLoop vr [] = vr"
| "validateLoop vr (m # ms) =
     (case validateCase vr m of
        Inl r \<Rightarrow> r
      | Inr vr' \<Rightarrow>
          if beginIndex vr' \<noteq> None \<and> endIndex vr' \<noteq> None
          then vr'\<lparr>valid := True, reason := None\<rparr>
          else validateLoop vr' ms)"

text \<open>
  \<^verbatim>\<open>const validationResult: ValidationResult =
    { valid: false, reason: "Did not discover beginning and end" };\<close>
\<close>

definition initialResult :: ValidationResult where
  "initialResult =
     \<lparr>valid = False, beginIndex = None, endIndex = None, htmlIndex = None,
      cssIndex = None, jsIndex = None,
      reason = Some ''Did not discover beginning and end''\<rparr>"

definition validateMetaLines :: "MetaLine list \<Rightarrow> ValidationResult" where
  "validateMetaLines metaLines = validateLoop initialResult metaLines"

section \<open>The host tokenizer: tokens and the block state\<close>

text \<open>
  The tokenizer is markdown-it. Its \<open>Token\<close> and \<open>StateBlock\<close> are modelled with the
  fields and the methods that schema.ts uses: \<open>attrSet\<close>, \<open>attrGet\<close>, \<open>push\<close> and
  \<open>getLines\<close>. The attributes of a token are a list of pairs, as in markdown-it, empty
  where markdown-it has \<open>null\<close>; the source range \<open>map\<close> of a token is \<open>tokMap\<close>.
\<close>

record Token =
  type :: string
  tag :: string
  attrs :: "(string \<times> string) list"
  tokMap :: "(nat \<times> nat) option"
  nesting :: int
  level :: int
  content :: string
  markup :: string
  info :: string
  block :: bool
  hidden :: bool

definition newToken :: "string \<Rightarrow> string \<Rightarrow> int \<Rightarrow> Token" where
  "newToken ty tg n =
     \<lparr>type = ty, tag = tg, attrs = [], tokMap = None, nesting = n, level = 0,
      content = [], markup = [], info = [], block = False, hidden = False\<rparr>"

text \<open>\<open>attrSet\<close> overwrites the first pair of that name, or appends a pair.\<close>

fun attrSetList :: "string \<Rightarrow> string \<Rightarrow> (string \<times> string) list \<Rightarrow> (string \<times> string) list" where
  "attrSetList name v [] = [(name, v)]"
| "attrSetList name v ((n, w) # as) =
     (if n = name then (name, v) # as else (n, w) # attrSetList name v as)"

definition attrSet :: "string \<Rightarrow> string \<Rightarrow> Token \<Rightarrow> Token" where
  "attrSet name v tok = tok\<lparr>attrs := attrSetList name v (attrs tok)\<rparr>"

text \<open>\<open>attrGet\<close> is the value of the first pair of that name, \<open>None\<close> for \<open>null\<close>.\<close>

definition attrGet :: "Token \<Rightarrow> string \<Rightarrow> string option" where
  "attrGet tok name = map_of (attrs tok) name"

text \<open>
  The block state. The arrays have one entry per line; \<open>stLevel\<close> is the field \<open>level\<close>
  of the state.
\<close>

record StateBlock =
  src :: string
  bMarks :: "nat list"
  eMarks :: "nat list"
  tShift :: "int list"
  sCount :: "int list"
  bsCount :: "nat list"
  blkIndent :: int
  line :: nat
  lineMax :: nat
  stLevel :: int
  tokens :: "Token list"

text \<open>An array read: \<open>None\<close> is \<open>undefined\<close>, the value of a read out of range.\<close>

definition nth_opt :: "'a list \<Rightarrow> nat \<Rightarrow> 'a option" where
  "nth_opt xs i = (if i < length xs then Some (xs ! i) else None)"

text \<open>
  \<open>String.prototype.slice\<close> on indices that are not negative; an undefined start is 0, an
  undefined end is the length.
\<close>

definition slice :: "string \<Rightarrow> nat option \<Rightarrow> nat option \<Rightarrow> string" where
  "slice s b e =
     (let from = (case b of None \<Rightarrow> 0 | Some n \<Rightarrow> n);
          to = (case e of None \<Rightarrow> length s | Some n \<Rightarrow> n)
      in take (to - from) (drop from s))"

text \<open>\<open>String.prototype.charCodeAt\<close>: an undefined position is 0, \<open>None\<close> is \<open>NaN\<close>.\<close>

definition charCodeAt :: "string \<Rightarrow> nat option \<Rightarrow> char option" where
  "charCodeAt s p = nth_opt s (case p of None \<Rightarrow> 0 | Some n \<Rightarrow> n)"

text \<open>
  \<open>StateBlock.prototype.push\<close>: a new token at the end of the token stream.
  \<open>modifyToken\<close> is a write through the handle that the latest \<open>push\<close> returned.
\<close>

definition push :: "StateBlock \<Rightarrow> string \<Rightarrow> string \<Rightarrow> int \<Rightarrow> StateBlock" where
  "push st ty tg n =
     (let lvl = (if n < 0 then stLevel st - 1 else stLevel st);
          token = (newToken ty tg n)\<lparr>block := True, level := lvl\<rparr>
      in st\<lparr>stLevel := (if n > 0 then lvl + 1 else lvl), tokens := tokens st @ [token]\<rparr>)"

definition modifyToken :: "(Token \<Rightarrow> Token) \<Rightarrow> StateBlock \<Rightarrow> StateBlock" where
  "modifyToken f st =
     st\<lparr>tokens := (case rev (tokens st) of [] \<Rightarrow> [] | t # ts \<Rightarrow> rev ts @ [f t])\<rparr>"

text \<open>markdown-it's \<open>isSpace\<close>: a tab or a space.\<close>

definition isSpace :: "char \<Rightarrow> bool" where
  "isSpace c = (c = CHR 0x09 \<or> c = CHR 0x20)"

text \<open>
  The loop of \<open>getLines\<close> that skips the indentation of one line:
  \<^verbatim>\<open>while (first < last && lineIndent < indent) { ... first++ }\<close>.
  The arguments are \<open>indent\<close>, \<open>bsCount[line]\<close>, \<open>tShift[line]\<close>, \<open>lineIndent\<close>,
  \<open>first - lineStart\<close> and the characters from \<open>first\<close> to \<open>last\<close>; the result is the
  final \<open>lineIndent\<close> and the characters left. With \<open>bsCount[line]\<close> undefined a tab makes
  \<open>lineIndent\<close> \<open>NaN\<close>, which ends the loop after the tab and adds no padding.
\<close>

fun skipIndent :: "nat \<Rightarrow> nat option \<Rightarrow> int option \<Rightarrow> nat \<Rightarrow> nat \<Rightarrow> string \<Rightarrow> nat \<times> string" where
  "skipIndent indent bs ts lineIndent off [] = (lineIndent, [])"
| "skipIndent indent bs ts lineIndent off (ch # cs) =
     (if \<not> lineIndent < indent then (lineIndent, ch # cs)
      else if isSpace ch then
        (if ch = CHR 0x09 then
           (case bs of
              None \<Rightarrow> (lineIndent, cs)
            | Some b \<Rightarrow>
                skipIndent indent bs ts (lineIndent + (4 - (lineIndent + b) mod 4)) (Suc off) cs)
         else skipIndent indent bs ts (Suc lineIndent) (Suc off) cs)
      else if (case ts of None \<Rightarrow> False | Some t \<Rightarrow> int off < t) then
        skipIndent indent bs ts (Suc lineIndent) (Suc off) cs
      else (lineIndent, ch # cs))"

text \<open>
  The entry \<open>queue[i]\<close> of \<open>getLines\<close> for the line \<open>ln\<close>. With \<open>eMarks[line]\<close>
  undefined \<open>last\<close> is \<open>NaN\<close> (from \<open>undefined + 1\<close>) or \<open>undefined\<close>; the loop does not
  run, and the slice up to \<open>NaN\<close> is empty while the slice up to \<open>undefined\<close> goes to the
  end of the source.
\<close>

definition getLine :: "StateBlock \<Rightarrow> nat \<Rightarrow> nat \<Rightarrow> nat \<Rightarrow> bool \<Rightarrow> string" where
  "getLine st ln end indent keepLastLF =
     (case nth_opt (eMarks st) ln of
        None \<Rightarrow>
          if ln + 1 < end \<or> keepLastLF then []
          else slice (src st) (nth_opt (bMarks st) ln) None
      | Some eMark \<Rightarrow>
          (let last = (if ln + 1 < end \<or> keepLastLF then eMark + 1 else eMark) in
           case nth_opt (bMarks st) ln of
             None \<Rightarrow> slice (src st) None (Some last)
           | Some lineStart \<Rightarrow>
               (case skipIndent indent (nth_opt (bsCount st) ln) (nth_opt (tShift st) ln) 0 0
                       (slice (src st) (Some lineStart) (Some last)) of
                  (lineIndent, rest) \<Rightarrow>
                    if lineIndent > indent
                    then replicate (lineIndent - indent) (CHR '' '') @ rest
                    else rest)))"

text \<open>\<open>StateBlock.prototype.getLines(begin, end, indent, keepLastLF)\<close>\<close>

definition getLines :: "StateBlock \<Rightarrow> nat \<Rightarrow> nat \<Rightarrow> nat \<Rightarrow> bool \<Rightarrow> string" where
  "getLines st begin end indent keepLastLF =
     (if begin \<ge> end then []
      else concat (map (\<lambda>ln. getLine st ln end indent keepLastLF) [begin..<end]))"

section \<open>The block extractor\<close>

text \<open>
  The loop that collects the raw meta-lines of \<open>parseSnippetBlock\<close>: the lines of
  \<open>[startLine, endLine)\<close> that start with \<open><\<close> (character code 60) and match
  \<open>validSnippetRegex\<close>, each with its line index.
\<close>

definition rawMetaLine :: "StateBlock \<Rightarrow> nat \<Rightarrow> RawContext option" where
  "rawMetaLine state i =
     (if charCodeAt (src state) (nth_opt (bMarks state) i) \<noteq> Some (CHR ''<'') then None
      else
        (let line = slice (src state) (nth_opt (bMarks state) i) (nth_opt (eMarks state) i) in
         if \<not> validSnippetRegex line then None
         else Some \<lparr>rawLine = line, rawIndex = i\<rparr>))"

definition collectRawMetaLines :: "StateBlock \<Rightarrow> nat \<Rightarrow> nat \<Rightarrow> RawContext list" where
  "collectRawMetaLines state startLine endLine =
     List.map_filter (rawMetaLine state) [startLine..<endLine]"

text \<open>\<^verbatim>\<open>const metaLines = rawMetaLines.map(mapMetaLine).filter((m) => m != null);\<close>\<close>

definition collectMetaLines :: "StateBlock \<Rightarrow> nat \<Rightarrow> nat \<Rightarrow> MetaLine list" where
  "collectMetaLines state startLine endLine =
     List.map_filter mapMetaLine (collectRawMetaLines state startLine endLine)"

text \<open>The tests \<open>m.type === "begin"\<close>, \<open>"end"\<close> and \<open>"lang"\<close>.\<close>

fun isBegin :: "MetaLine \<Rightarrow> bool" where
  "isBegin (Begin i b re ts c h) = True"
| "isBegin m = False"

fun isEnd :: "MetaLine \<Rightarrow> bool" where
  "isEnd (End i) = True"
| "isEnd m = False"

fun isLang :: "MetaLine \<Rightarrow> bool" where
  "isLang (Lang i lang) = True"
| "isLang m = False"

text \<open>The open token and its five attributes.\<close>

definition pushOpen :: "StateBlock \<Rightarrow> MetaLine \<Rightarrow> StateBlock" where
  "pushOpen state begin =
     (let s0 = push state ''stack_snippet_open'' ''code'' 1;
          s1 = modifyToken (attrSet ''hide'' (hide begin)) s0;
          s2 = modifyToken (attrSet ''console'' (console begin)) s1;
          s3 = modifyToken (attrSet ''babel'' (babel begin)) s2;
          s4 = modifyToken (attrSet ''babelPresetReact'' (babelPresetReact begin)) s3
      in modifyToken (attrSet ''babelPresetTS'' (babelPresetTS begin)) s4)"

text \<open>
  The loop over \<open>langSort\<close> from the current entry on; \<open>endIndex\<close> is \<open>end.index\<close>. The
  bounds \<open>index + 2\<close> and \<open>langEnd - 1\<close> are natural numbers: \<open>langEnd - 1\<close> is 0 for
  \<open>langEnd = 0\<close>, where JavaScript has -1, and \<open>getLines\<close> is empty for both.
\<close>

fun pushLangs :: "StateBlock \<Rightarrow> MetaLine list \<Rightarrow> nat \<Rightarrow> StateBlock" where
  "pushLangs state [] endIdx = state"
| "pushLangs state (l # ls) endIdx =
     (let langEnd = (case ls of [] \<Rightarrow> endIdx | next # rest \<Rightarrow> index next);
          langBlock = getLines state (index l + 2) (langEnd - 1) 4 False;
          s0 = push state ''stack_snippet_lang'' ''code'' 1;
          s1 = modifyToken (\<lambda>t. t\<lparr>content := langBlock\<rparr>) s0;
          s2 = modifyToken (\<lambda>t. t\<lparr>tokMap := Some (index l, langEnd)\<rparr>) s1;
          s3 = modifyToken (attrSet ''language'' (language l)) s2
      in pushLangs s3 ls endIdx)"

text \<open>
  The part of \<open>parseSnippetBlock\<close> after validation, in committing mode: \<open>shift\<close>,
  \<open>pop\<close>, the sort of the language markers and the emission of the tokens. The result is
  the returned boolean and the state after the call; \<open>None\<close> is a \<open>TypeError\<close>, thrown
  where \<open>shift\<close> or \<open>pop\<close> returns \<open>undefined\<close> and its \<open>type\<close> is read.
\<close>

definition commitSnippet :: "StateBlock \<Rightarrow> MetaLine list \<Rightarrow> (bool \<times> StateBlock) option" where
  "commitSnippet state metaLines =
     (case metaLines of
        [] \<Rightarrow> None
      | begin # shifted \<Rightarrow>
          if \<not> isBegin begin then Some (False, state)
          else
            (case rev shifted of
               [] \<Rightarrow> None
             | end # popped \<Rightarrow>
                 if \<not> isEnd end then Some (False, state)
                 else
                   (let langSort = sort_key index (filter isLang (rev popped)) in
                    if \<not> list_all isLang langSort then Some (False, state)
                    else
                      (let s1 = pushOpen state begin;
                           s2 = pushLangs s1 langSort (index end);
                           s3 = push s2 ''stack_snippet_close'' ''code'' (- 1)
                       in Some (True, s3\<lparr>line := index end + 1\<rparr>)))))"

text \<open>
  \<open>parseSnippetBlock\<close>. An undefined \<open>sCount[startLine]\<close> makes the first comparison
  false, an undefined \<open>tShift[startLine]\<close> is different from 0.
\<close>

definition parseSnippetBlock ::
  "StateBlock \<Rightarrow> nat \<Rightarrow> nat \<Rightarrow> bool \<Rightarrow> (bool \<times> StateBlock) option" where
  "parseSnippetBlock state startLine endLine silent =
     (if (case nth_opt (sCount state) startLine of
            None \<Rightarrow> False
          | Some sc \<Rightarrow> sc - blkIndent state \<ge> 4)
      then Some (False, state)
      else if blkIndent state \<noteq> 0 \<or> nth_opt (tShift state) startLine \<noteq> Some 0
      then Some (False, state)
      else
        (let openingLine = slice (src state) (nth_opt (bMarks state) startLine)
                             (nth_opt (eMarks state) startLine) in
         if \<not> validSnippetRegex openingLine then Some (False, state)
         else
           (let metaLines = collectMetaLines state startLine endLine;
                validationResult = validateMetaLines metaLines in
            if silent \<or> \<not> valid validationResult then Some (valid validationResult, state)
            else commitSnippet state metaLines)))"

section \<open>The rich-text nodes, the token parser and the serializer\<close>

text \<open>
  A node of the document tree has the attributes that \<open>getAttrs\<close> of
  \<open>stackSnippetMarkdownParser\<close> returns for its token, by name; \<open>None\<close> is \<open>null\<close>. A
  language node has its text, a snippet node its language nodes.
\<close>

record LangNode =
  langAttrs :: "(string \<times> string option) list"
  textContent :: string

record SnippetNode =
  nodeAttrs :: "(string \<times> string option) list"
  children :: "LangNode list"



text \<open>
  The tree builder is the host's (prosemirror-markdown, configured by
  \<open>stackSnippetMarkdownParser\<close>, with the node types of
  \<open>stackSnippetRichTextNodeSpec\<close>): \<open>stack_snippet_open\<close> opens a snippet node, each
  \<open>stack_snippet_lang\<close> token (\<open>noCloseToken\<close>) is a language node, and
  \<open>stack_snippet_close\<close> closes the snippet node.

  The handler of a \<open>noCloseToken\<close> block adds \<open>withoutTrailingNewline(tok.content)\<close> as the
  text of the node: the content without its last character when that is a newline.
\<close>

definition withoutTrailingNewline :: "string \<Rightarrow> string" where
  "withoutTrailingNewline str = (if str \<noteq> [] \<and> last str = LF then butlast str else str)"


text \<open>
  Closing a node is \<open>createAndFill\<close> of its type. The content of \<open>stack_snippet\<close> is
  declared as \<open>stack_snippet_lang stack_snippet_lang stack_snippet_lang\<close>: up to three
  language nodes are filled up to three with language nodes that \<open>createAndFill\<close> makes
  from the defaults (the attribute \<open>language\<close> has the default \<open>""\<close>, the content
  \<open>text*\<close> may be empty); more than three do not fit, \<open>createAndFill\<close> is \<open>null\<close> and no
  node is added.
\<close>

definition defaultLangNode :: LangNode where
  "defaultLangNode = \<lparr>langAttrs = [(''language'', Some [])], textContent = []\<rparr>"



text \<open>
  Modelled from the spec: \<open>assertAttrValue\<close> of \<open>./common\<close>, which is not among the
  sources. It is the current value of the attribute, and the string \<open>null\<close> when the
  attribute is absent.
\<close>

definition assertAttrValue :: "(string \<times> string option) list \<Rightarrow> string \<Rightarrow> string" where
  "assertAttrValue as name =
     (case map_of as name of Some (Some v) \<Rightarrow> v | _ \<Rightarrow> ''null'')"

text \<open>
  Modelled from the spec: \<open>getSnippetMetadata\<close> of \<open>./common\<close>, which is not among the
  sources. The serializer reads the five fields of its result; each is the current value
  of the attribute of the node, and the string \<open>null\<close> when the attribute is absent.
\<close>

definition getSnippetMetadata :: "SnippetNode \<Rightarrow> StartGroups" where
  "getSnippetMetadata node =
     \<lparr>g_hide = assertAttrValue (nodeAttrs node) ''hide'',
      g_console = assertAttrValue (nodeAttrs node) ''console'',
      g_babel = assertAttrValue (nodeAttrs node) ''babel'',
      g_babelPresetReact = assertAttrValue (nodeAttrs node) ''babelPresetReact'',
      g_babelPresetTS = assertAttrValue (nodeAttrs node) ''babelPresetTS''\<rparr>"

text \<open>
  The state of the host's serializer (prosemirror-markdown) outside any list or quote, where
  its delimiter is empty: the output so far, and whether a closed block waits for its
  blank line. \<open>write\<close> (here \<open>write_out\<close>) first flushes a closed block (a newline unless the output is at a
  blank, then one more), then appends the content.
\<close>

record SerializerState =
  out :: string
  closed :: bool

definition atBlank :: "SerializerState \<Rightarrow> bool" where
  "atBlank st = (out st = [] \<or> last (out st) = LF)"

definition flushClose :: "SerializerState \<Rightarrow> SerializerState" where
  "flushClose st =
     (if closed st
      then st\<lparr>out := (if atBlank st then out st else out st @ [LF]) @ [LF], closed := False\<rparr>
      else st)"

definition write_out :: "string \<Rightarrow> SerializerState \<Rightarrow> SerializerState" where
  "write_out c st = (let st' = flushClose st in st'\<lparr>out := out st' @ c\<rparr>)"

definition closeBlock :: "SerializerState \<Rightarrow> SerializerState" where
  "closeBlock st = st\<lparr>closed := True\<rparr>"

text \<open>\<open>String.prototype.split("\n")\<close>\<close>

fun splitLF :: "string \<Rightarrow> string list" where
  "splitLF [] = [[]]"
| "splitLF (c # cs) =
     (if c = LF then [] # splitLF cs
      else (case splitLF cs of l # ls \<Rightarrow> (c # l) # ls | [] \<Rightarrow> [[c]]))"

text \<open>The body of \<open>node.forEach\<close> in the serializer, for one language node.\<close>

definition writeLangNode :: "SerializerState \<Rightarrow> LangNode \<Rightarrow> SerializerState" where
  "writeLangNode state langNode =
     (let language = assertAttrValue (langAttrs langNode) ''language'';
          s1 = write_out (''<!-- language: lang-'' @ language @ '' -->'' @ [LF, LF]) state;
          spacedContent = map (\<lambda>l. if l \<noteq> [] then ''    '' @ l else l)
                            (splitLF (textContent langNode));
          s2 = foldl (\<lambda>s l. write_out (l @ [LF]) s) s1 spacedContent
      in write_out [LF] s2)"

text \<open>\<open>stackSnippetMarkdownSerializer.stack_snippet\<close>\<close>

definition stack_snippet :: "SerializerState \<Rightarrow> SnippetNode \<Rightarrow> SerializerState" where
  "stack_snippet state node =
     (let meta = getSnippetMetadata node;
          s1 = write_out (''<!-- begin snippet: js hide: '' @ g_hide meta @
                      '' console: '' @ g_console meta @
                      '' babel: '' @ g_babel meta @
                      '' babelPresetReact: '' @ g_babelPresetReact meta @
                      '' babelPresetTS: '' @ g_babelPresetTS meta @ '' -->'') state;
          s2 = write_out [LF, LF] s1;
          s3 = foldl writeLangNode s2 (children node);
          s4 = write_out ''<!-- end snippet -->'' s3
      in closeBlock s4)"

section \<open>A document through the tokenizer and the serializer\<close>

text \<open>
  The block state that the host builds for a source text (the constructor of
  \<open>StateBlock\<close>, on a text that the host has normalised): one entry per line and a last
  entry for the end of the text. The constructor records no line for what follows the
  last newline when it has only spaces and tabs.
\<close>

definition hostLines :: "string \<Rightarrow> string list" where
  "hostLines s = (let ls = splitLF s in if list_all isSpace (last ls) then butlast ls else ls)"

text \<open>The offsets of the begin and of the end of each line, from the offset of the first.\<close>

fun lineMarks :: "nat \<Rightarrow> string list \<Rightarrow> (nat \<times> nat) list" where
  "lineMarks off [] = []"
| "lineMarks off (l # ls) = (off, off + length l) # lineMarks (off + length l + 1) ls"

text \<open>The indent of a line in columns, tabs expanded to the next multiple of 4.\<close>

fun expandIndent :: "nat \<Rightarrow> string \<Rightarrow> nat" where
  "expandIndent off [] = off"
| "expandIndent off (c # cs) =
     (if isSpace c
      then expandIndent (if c = CHR 0x09 then off + (4 - off mod 4) else Suc off) cs
      else off)"

definition newStateBlock :: "string \<Rightarrow> StateBlock" where
  "newStateBlock s =
     (let ls = hostLines s; ms = lineMarks 0 ls in
      \<lparr>src = s,
       bMarks = map fst ms @ [length s],
       eMarks = map snd ms @ [length s],
       tShift = map (\<lambda>l. int (length (takeWhile isSpace l))) ls @ [0],
       sCount = map (\<lambda>l. int (expandIndent 0 l)) ls @ [0],
       bsCount = replicate (length ls + 1) 0,
       blkIndent = 0, line = 0, lineMax = length ls, stLevel = 0, tokens = []\<rparr>)"



section \<open>The escape-retagging rule\<close>

text \<open>
  The inline state of the host with its token stream, and an inline rule: a function of the
  state and the silent flag that returns a boolean and changes the state.
\<close>

record StateInline =
  inlineSrc :: string
  pos :: nat
  posMax :: nat
  pending :: string
  inlineTokens :: "Token list"

type_synonym RuleInline = "StateInline \<Rightarrow> bool \<Rightarrow> bool \<times> StateInline"

text \<open>
  A rule of the host's inline ruler: its name in the ruler, whether it is enabled, and its
  function with the \<open>name\<close> of the function.
\<close>

record InlineRule =
  ruleName :: string
  enabled :: bool
  fnName :: string
  fn :: RuleInline

text \<open>\<open>md.inline.ruler.getRules("")\<close>: the functions of the enabled rules.\<close>

definition getRules :: "InlineRule list \<Rightarrow> (string \<times> RuleInline) list" where
  "getRules rules = map (\<lambda>r. (fnName r, fn r)) (filter enabled rules)"

text \<open>\<^verbatim>\<open>const noop = (): boolean => false;\<close>\<close>

definition noop :: RuleInline where
  "noop state silent = (False, state)"

text \<open>
  \<^verbatim>\<open>state.tokens.findLast((t) => t.info == "escape")\<close> and the assignment to the
  \<open>type\<close> of the token found: \<open>retagFirst\<close> on the reversed token stream.
\<close>

fun retagFirst :: "Token list \<Rightarrow> Token list" where
  "retagFirst [] = []"
| "retagFirst (t # ts) =
     (if info t = ''escape'' then t\<lparr>type := ''escape''\<rparr> # ts else t # retagFirst ts)"

definition retagLast :: "Token list \<Rightarrow> Token list" where
  "retagLast ts = rev (retagFirst (rev ts))"

definition preserveEscapeFn :: "RuleInline \<Rightarrow> RuleInline" where
  "preserveEscapeFn escapeFn state silent =
     (case escapeFn state silent of
        (escRet, state') \<Rightarrow>
          if silent \<or> escRet = False then (escRet, state')
          else (escRet, state'\<lparr>inlineTokens := retagLast (inlineTokens state')\<rparr>))"

definition buildPreserveEscapeFn :: "InlineRule list \<Rightarrow> RuleInline" where
  "buildPreserveEscapeFn rules =
     (case filter (\<lambda>r. fst r = ''escape'') (getRules rules) of
        [] \<Rightarrow> noop
      | (name, escapeFn) # others \<Rightarrow> preserveEscapeFn escapeFn)"

text \<open>
  \<open>md.inline.ruler.at("escape", fn)\<close> replaces the function of the rule of that name;
  \<open>None\<close> is the error it throws when the ruler has no such rule.
\<close>

fun ruler_at :: "string \<Rightarrow> string \<Rightarrow> RuleInline \<Rightarrow> InlineRule list \<Rightarrow> InlineRule list option" where
  "ruler_at name fname f [] = None"
| "ruler_at name fname f (r # rs) =
     (if ruleName r = name then Some (r\<lparr>fnName := fname, fn := f\<rparr> # rs)
      else map_option ((#) r) (ruler_at name fname f rs))"

definition preserve_escape :: "InlineRule list \<Rightarrow> InlineRule list option" where
  "preserve_escape rules =
     (let preserveEscapeTokens = buildPreserveEscapeFn rules;
          name = (if filter (\<lambda>r. fst r = ''escape'') (getRules rules) = []
                  then ''noop'' else ''preserveEscapeFn'')
      in ruler_at ''escape'' name preserveEscapeTokens rules)"

section \<open>Vocabulary of the properties\<close>

text \<open>The values of a tri-state field.\<close>

definition triState :: "string set" where
  "triState = {''true'', ''false'', ''null''}"

text \<open>
  The five categories of the validator, one per index field of the validation result, and
  the category of a meta-line; a language marker of another language has none.
\<close>

datatype Slot = SlotBegin | SlotEnd | SlotJs | SlotHtml | SlotCss

fun slotOf :: "MetaLine \<Rightarrow> Slot option" where
  "slotOf (Begin i b re ts c h) = Some SlotBegin"
| "slotOf (End i) = Some SlotEnd"
| "slotOf (Lang i lang) =
     (if lang = ''js'' then Some SlotJs
      else if lang = ''html'' then Some SlotHtml
      else if lang = ''css'' then Some SlotCss
      else None)"

definition slots :: "MetaLine list \<Rightarrow> Slot list" where
  "slots ml = List.map_filter slotOf ml"

fun slotIndex :: "Slot \<Rightarrow> ValidationResult \<Rightarrow> nat option" where
  "slotIndex SlotBegin vr = beginIndex vr"
| "slotIndex SlotEnd vr = endIndex vr"
| "slotIndex SlotJs vr = jsIndex vr"
| "slotIndex SlotHtml vr = htmlIndex vr"
| "slotIndex SlotCss vr = cssIndex vr"

fun setSlot :: "Slot \<Rightarrow> nat \<Rightarrow> ValidationResult \<Rightarrow> ValidationResult" where
  "setSlot SlotBegin i vr = vr\<lparr>beginIndex := Some i\<rparr>"
| "setSlot SlotEnd i vr = vr\<lparr>endIndex := Some i\<rparr>"
| "setSlot SlotJs i vr = vr\<lparr>jsIndex := Some i\<rparr>"
| "setSlot SlotHtml i vr = vr\<lparr>htmlIndex := Some i\<rparr>"
| "setSlot SlotCss i vr = vr\<lparr>cssIndex := Some i\<rparr>"

text \<open>The reason that the validator gives for a second meta-line of a category.\<close>

fun duplicateReason :: "Slot \<Rightarrow> string" where
  "duplicateReason SlotBegin = ''Duplicate Begin block''"
| "duplicateReason SlotEnd = ''Duplicate End block''"
| "duplicateReason SlotJs = ''Duplicate JS block''"
| "duplicateReason SlotHtml = ''Duplicate HTML block''"
| "duplicateReason SlotCss = ''Duplicate CSS block''"

text \<open>The source line index of the first meta-line of a category in a list.\<close>

definition firstIndex :: "Slot \<Rightarrow> MetaLine list \<Rightarrow> nat option" where
  "firstIndex s ml = map_option index (find (\<lambda>m. slotOf m = Some s) ml)"

text \<open>
  The validation result with the given \<open>valid\<close> and \<open>reason\<close> in which each category
  has the position of its first meta-line in the list.
\<close>

definition recorded :: "bool \<Rightarrow> string option \<Rightarrow> MetaLine list \<Rightarrow> ValidationResult" where
  "recorded v r ml =
     \<lparr>valid = v, beginIndex = firstIndex SlotBegin ml, endIndex = firstIndex SlotEnd ml,
      htmlIndex = firstIndex SlotHtml ml, cssIndex = firstIndex SlotCss ml,
      jsIndex = firstIndex SlotJs ml, reason = r\<rparr>"

text \<open>The state of the scan of the validator after recording a list of meta-lines.\<close>

fun recordAll :: "ValidationResult \<Rightarrow> MetaLine list \<Rightarrow> ValidationResult" where
  "recordAll vr [] = vr"
| "recordAll vr (m # ms) =
     recordAll (case slotOf m of None \<Rightarrow> vr | Some s \<Rightarrow> setSlot s (index m) vr) ms"

text \<open>
  Whether the validator has a begin and an end position once it has recorded a list of
  meta-lines on top of a validation result.
\<close>

definition bothAfter :: "ValidationResult \<Rightarrow> MetaLine list \<Rightarrow> bool" where
  "bothAfter vr ml \<longleftrightarrow>
     (beginIndex vr \<noteq> None \<or> SlotBegin \<in> set (slots ml)) \<and>
     (endIndex vr \<noteq> None \<or> SlotEnd \<in> set (slots ml))"

text \<open>
  The tokens that a call of \<open>parseSnippetBlock\<close> in committing mode adds to the token
  stream, in closed form: the open token with the five fields of the Begin meta-line, at
  the level of the state; for each language marker a token whose content is
  \<open>getLines\<close> from the index of the marker plus 2 to \<open>langEnd - 1\<close> with the indent 4,
  where \<open>langEnd\<close> is the index of the next language marker, or of the End meta-line for
  the last; and the close token.
\<close>

definition openToken :: "int \<Rightarrow> MetaLine \<Rightarrow> Token" where
  "openToken lvl bg =
     \<lparr>type = ''stack_snippet_open'', tag = ''code'',
      attrs = [(''hide'', hide bg), (''console'', console bg), (''babel'', babel bg),
               (''babelPresetReact'', babelPresetReact bg),
               (''babelPresetTS'', babelPresetTS bg)],
      tokMap = None, nesting = 1, level = lvl, content = [], markup = [], info = [],
      block = True, hidden = False\<rparr>"

definition langToken :: "StateBlock \<Rightarrow> int \<Rightarrow> MetaLine \<Rightarrow> nat \<Rightarrow> Token" where
  "langToken state lvl l langEnd =
     \<lparr>type = ''stack_snippet_lang'', tag = ''code'',
      attrs = [(''language'', language l)],
      tokMap = Some (index l, langEnd), nesting = 1, level = lvl,
      content = getLines state (index l + 2) (langEnd - 1) 4 False,
      markup = [], info = [], block = True, hidden = False\<rparr>"

fun langTokens :: "StateBlock \<Rightarrow> int \<Rightarrow> MetaLine list \<Rightarrow> nat \<Rightarrow> Token list" where
  "langTokens state lvl [] endIdx = []"
| "langTokens state lvl (l # ls) endIdx =
     langToken state lvl l (case ls of [] \<Rightarrow> endIdx | n # r \<Rightarrow> index n) #
     langTokens state (lvl + 1) ls endIdx"

definition closeToken :: "int \<Rightarrow> Token" where
  "closeToken lvl =
     \<lparr>type = ''stack_snippet_close'', tag = ''code'', attrs = [],
      tokMap = None, nesting = - 1, level = lvl, content = [], markup = [], info = [],
      block = True, hidden = False\<rparr>"

text \<open>\<open>Array.prototype.join("\n")\<close>: the lines of a text, with a newline between two.\<close>

fun joinLF :: "string list \<Rightarrow> string" where
  "joinLF [] = []"
| "joinLF [l] = l"
| "joinLF (l # ls) = l @ LF # joinLF ls"

text \<open>
  The line \<open>ln\<close> of a block state is the text \<open>l\<close> and a newline follows it: the marks
  of the line delimit \<open>l\<close> in the source, the character at its end mark is the newline,
  and \<open>tShift\<close> is the number of spaces and tabs at the start of \<open>l\<close>.
\<close>

definition lineAt :: "StateBlock \<Rightarrow> nat \<Rightarrow> string \<Rightarrow> bool" where
  "lineAt state ln l \<longleftrightarrow>
     (case nth_opt (bMarks state) ln of
        None \<Rightarrow> False
      | Some b \<Rightarrow>
          nth_opt (eMarks state) ln = Some (b + length l) \<and>
          slice (src state) (Some b) (Some (b + length l + 1)) = l @ [LF]) \<and>
     nth_opt (tShift state) ln = Some (int (length (takeWhile isSpace l)))"

text \<open>
  What the serializer writes for one language node: the marker of its language, an empty
  line, each line of its text with four spaces before it unless the line is empty, and an
  empty line.
\<close>

definition langBlock :: "LangNode \<Rightarrow> string" where
  "langBlock langNode =
     ''<!-- language: lang-'' @ assertAttrValue (langAttrs langNode) ''language'' @ '' -->'' @
     [LF, LF] @
     concat (map (\<lambda>l. (if l = [] then [] else ''    '' @ l) @ [LF])
               (splitLF (textContent langNode))) @
     [LF]"

section \<open>Example documents\<close>

text \<open>
  A snippet with one language block whose content has an empty line and a line indented
  by six columns.
\<close>

definition blankLineDocument :: string where
  "blankLineDocument = joinLF
     [''<!-- begin snippet: js hide: false console: true babel: false babelPresetReact: false babelPresetTS: false -->'',
      [],
      ''<!-- language: lang-js -->'',
      [],
      ''    if (a) {'',
      [],
      ''      b();'',
      ''    }'',
      [],
      ''<!-- end snippet -->'']"

text \<open>
  A language marker before the begin marker: the validator accepts the three meta-lines,
  the extractor does not find a Begin first.
\<close>

definition strayLangDocument :: string where
  "strayLangDocument =
     ''<!-- language: lang-js -->'' @ [LF] @
     ''<!-- begin snippet: js hide: null console: true babel: false babelPresetReact: null babelPresetTS: null -->'' @ [LF] @
     ''<!-- end snippet -->''"

text \<open>
  A snippet node with one attribute absent, a language node with an empty line in its text
  and a language node with no text.
\<close>

definition exampleNode :: SnippetNode where
  "exampleNode =
     \<lparr>nodeAttrs = [(''hide'', Some ''false''), (''console'', Some ''true''),
                   (''babel'', Some ''false''), (''babelPresetReact'', Some ''false''),
                   (''babelPresetTS'', None)],
      children =
        [\<lparr>langAttrs = [(''language'', Some ''js'')],
          textContent = ''if (a) {'' @ [LF, LF] @ ''  b();'' @ [LF] @ ''}''\<rparr>,
         \<lparr>langAttrs = [(''language'', Some ''css'')], textContent = []\<rparr>]\<rparr>"

text \<open>
  An escape rule in the manner of the host's: at a backslash it pushes, unless silent, a
  \<open>text_special\<close> token with the info \<open>escape\<close> for the next character, moves the
  position past both and returns true; elsewhere it returns false.
\<close>

definition exampleEscape :: RuleInline where
  "exampleEscape state silent =
     (if nth_opt (inlineSrc state) (pos state) = Some (CHR 0x5C)
      then (True,
            (if silent then state
             else state\<lparr>inlineTokens := inlineTokens state @
                    [(newToken ''text_special'' [] 0)
                       \<lparr>content := take 1 (drop (pos state + 1) (inlineSrc state)),
                        info := ''escape''\<rparr>]\<rparr>)
            \<lparr>pos := pos state + 2\<rparr>)
      else (False, state))"

definition exampleRules :: "InlineRule list" where
  "exampleRules =
     [\<lparr>ruleName = ''text'', enabled = True, fnName = ''text'', fn = noop\<rparr>,
      \<lparr>ruleName = ''escape'', enabled = True, fnName = ''escape'', fn = exampleEscape\<rparr>]"

definition exampleInline :: StateInline where
  "exampleInline =
     \<lparr>inlineSrc = [CHR 0x5C] @ ''*a'', pos = 0, posMax = 3, pending = [],
      inlineTokens = [(newToken ''text_special'' [] 0)\<lparr>content := ''_'', info := ''escape''\<rparr>,
                      (newToken ''text'' [] 0)\<lparr>content := ''b''\<rparr>]\<rparr>"

section \<open>Vocabulary of the round trip\<close>

text \<open>
  The block extractor looks at a line only when it starts with \<open><\<close> and matches
  \<^const>\<open>validSnippetRegex\<close>; \<^term>\<open>metaOf i l\<close> is what such a line at index
  \<^term>\<open>i\<close> contributes, and \<^term>\<open>metaLinesFrom k ls\<close> collects the contributions of
  the lines \<^term>\<open>ls\<close>, the first of which has index \<^term>\<open>k\<close>.
\<close>

definition startsWithLt :: "string \<Rightarrow> bool" where
  "startsWithLt l = (case l of [] \<Rightarrow> False | c # cs \<Rightarrow> c = CHR ''<'')"

definition metaOf :: "nat \<Rightarrow> string \<Rightarrow> MetaLine option" where
  "metaOf i l =
     (if startsWithLt l \<and> validSnippetRegex l
      then mapMetaLine \<lparr>rawLine = l, rawIndex = i\<rparr> else None)"

fun metaLinesFrom :: "nat \<Rightarrow> string list \<Rightarrow> MetaLine list" where
  "metaLinesFrom k [] = []"
| "metaLinesFrom k (l # ls) =
     (case metaOf k l of
        None \<Rightarrow> metaLinesFrom (Suc k) ls
      | Some m \<Rightarrow> m # metaLinesFrom (Suc k) ls)"

text \<open>
  A list of lines is the line structure that the host records for the text joining it by
  line feeds when there is a line, no line holds a line feed, and the last line has a
  character other than a space or a tab (a last line of spaces and tabs only is not
  recorded by the host).
\<close>

definition documentLines :: "string list \<Rightarrow> bool" where
  "documentLines ls \<longleftrightarrow>
     ls \<noteq> [] \<and> list_all (\<lambda>l. LF \<notin> set l) ls \<and> \<not> list_all isSpace (last ls)"

text \<open>
  The lines the serializer writes for a node: the begin line with the five attribute values,
  a blank line, for each child its language marker, a blank line, the lines of its text behind
  four spaces (an empty line stays empty) and a blank line, and at last the end marker.
\<close>

definition padLine :: "string \<Rightarrow> string" where
  "padLine l = (if l = [] then [] else ''    '' @ l)"


definition langMarker :: "string \<Rightarrow> string" where
  "langMarker lang = ''<!-- language: lang-'' @ lang @ '' -->''"

definition blockLines :: "string \<times> string \<Rightarrow> string list" where
  "blockLines kid = langMarker (fst kid) # [] # map padLine (splitLF (snd kid)) @ [[]]"


text \<open>
  A node whose attributes are the five flags and whose children are language blocks, each
  given by its language and its text.
\<close>

definition kidNode :: "string \<times> string \<Rightarrow> LangNode" where
  "kidNode kid = \<lparr>langAttrs = [(''language'', Some (fst kid))], textContent = snd kid\<rparr>"


text \<open>
  The language meta-lines of the serialized text, with the indices of their lines; the
  languages that \<^const>\<open>langSnippetRegex\<close> knows; and the slot of the validator that
  belongs to a language.
\<close>

fun langMetas :: "nat \<Rightarrow> (string \<times> string) list \<Rightarrow> MetaLine list" where
  "langMetas k [] = []"
| "langMetas k (kid # kids) = Lang k (fst kid) # langMetas (k + length (blockLines kid)) kids"



text \<open>The attribute \<open>language\<close> of a language node.\<close>

definition languageOf :: "LangNode \<Rightarrow> string option" where
  "languageOf langNode =
     (case map_of (langAttrs langNode) ''language'' of None \<Rightarrow> None | Some v \<Rightarrow> v)"







text \<open>
  A line without its indentation, as far as the indentation fills \<open>n\<close> columns: a space
  fills one column, a tab the columns that are left (in a line that starts at column 0 and
  for \<open>n\<close> up to 4), and the first other character ends the indentation.
\<close>

fun dropColumns :: "nat \<Rightarrow> string \<Rightarrow> string" where
  "dropColumns 0 l = l"
| "dropColumns (Suc n) [] = []"
| "dropColumns (Suc n) (c # cs) =
     (if c = CHR 0x20 then dropColumns n cs else if c = CHR 0x09 then cs else c # cs)"

text \<open>
  The lines of a snippet whose content lines are indented by none, two and five columns,
  followed by an empty line and a line indented by four columns.
\<close>

definition underIndentedLines :: "string list" where
  "underIndentedLines =
     [''<!-- begin snippet: js hide: false console: true babel: false babelPresetReact: false babelPresetTS: false -->'',
      [],
      ''<!-- language: lang-js -->'',
      [],
      ''abcdef'',
      ''  gh'',
      ''     five'',
      [],
      ''    pad'',
      [],
      ''<!-- end snippet -->'']"

section \<open>The meta-line classifier\<close>

lemma strip_prefix_Some: "strip_prefix p s = Some r \<longleftrightarrow> s = p @ r"
  by (induction p s rule: strip_prefix.induct) auto

lemma case_option_None_eq_Some:
  "(case x of None \<Rightarrow> None | Some r \<Rightarrow> f r) = Some y \<longleftrightarrow> (\<exists>r. x = Some r \<and> f r = Some y)"
  by (cases x) auto


lemma matchAlt_tri:
  "matchAlt [''true'', ''false'', ''null''] s = Some (v, r) \<longleftrightarrow> v \<in> triState \<and> s = v @ r"
  by (auto simp: triState_def strip_prefix_Some split: option.splits)

lemma matchAlt_lang:
  "matchAlt [''css'', ''html'', ''js''] s = Some (v, r) \<longleftrightarrow>
     v \<in> {''js'', ''css'', ''html''} \<and> s = v @ r"
  by (auto simp: strip_prefix_Some split: option.splits)


lemma case_list_eq_Some:
  "(case xs of [] \<Rightarrow> None | c # cs \<Rightarrow> if P c then Some (f cs) else None) = Some y \<longleftrightarrow>
     (\<exists>c cs. xs = c # cs \<and> P c \<and> y = f cs)"
  by (cases xs) auto

lemma matchField_Some:
  "matchField name s = Some (v, r) \<longleftrightarrow>
     (\<exists>c. regex_space c \<and> v \<in> triState \<and> s = name @ '': '' @ v @ c # r)"
proof -
  have "matchField name s = Some (v, r) \<longleftrightarrow>
     (\<exists>r0. s = (name @ '': '') @ r0 \<and>
        (\<exists>v' r'. v' \<in> triState \<and> r0 = v' @ r' \<and> (\<exists>c cs. r' = c # cs \<and> regex_space c \<and> (v, r) = (v', cs))))"
    unfolding matchField_def
    by (simp only: case_option_None_eq_Some strip_prefix_Some split_paired_Ex matchAlt_tri
        prod.case case_list_eq_Some conj_assoc)
  then show ?thesis by auto
qed


lemma startSnippetRegex_Some:
  "startSnippetRegex l = Some g \<longleftrightarrow>
     (\<exists>s1 s2 s3 s4 s5 rest.
        regex_space s1 \<and> regex_space s2 \<and> regex_space s3 \<and> regex_space s4 \<and> regex_space s5 \<and>
        g_hide g \<in> triState \<and> g_console g \<in> triState \<and> g_babel g \<in> triState \<and>
        g_babelPresetReact g \<in> triState \<and> g_babelPresetTS g \<in> triState \<and>
        l = ''<!-- begin snippet: js hide: '' @ g_hide g @ s1 #
            ''console: '' @ g_console g @ s2 #
            ''babel: '' @ g_babel g @ s3 #
            ''babelPresetReact: '' @ g_babelPresetReact g @ s4 #
            ''babelPresetTS: '' @ g_babelPresetTS g @ s5 # ''-->'' @ rest)"
  (is "?L \<longleftrightarrow> ?R")
proof -
  have "?L \<longleftrightarrow>
     (\<exists>r0. l = ''<!-- begin snippet: js '' @ r0 \<and>
      (\<exists>h r1. matchField ''hide'' r0 = Some (h, r1) \<and>
      (\<exists>c r2. matchField ''console'' r1 = Some (c, r2) \<and>
      (\<exists>b r3. matchField ''babel'' r2 = Some (b, r3) \<and>
      (\<exists>re r4. matchField ''babelPresetReact'' r3 = Some (re, r4) \<and>
      (\<exists>ts r5. matchField ''babelPresetTS'' r4 = Some (ts, r5) \<and>
      (\<exists>r6. r5 = ''-->'' @ r6 \<and>
         \<lparr>g_hide = h, g_console = c, g_babel = b,
                g_babelPresetReact = re, g_babelPresetTS = ts\<rparr> = g)))))))"
    unfolding startSnippetRegex_def
    by (simp only: case_option_None_eq_Some strip_prefix_Some split_paired_Ex prod.case
        option.inject)
  also have "\<dots> \<longleftrightarrow> ?R"
    unfolding matchField_Some
  proof (rule iffI, goal_cases)
    case 1
    then obtain h r1 c c1 r2 c2 b r3 c3 re r4 c4 ts r5 c5 r6 where
      g: "g = \<lparr>g_hide = h, g_console = c, g_babel = b,
                g_babelPresetReact = re, g_babelPresetTS = ts\<rparr>"
      and ws: "regex_space c1" "regex_space c2" "regex_space c3" "regex_space c4" "regex_space c5"
      and tri: "h \<in> triState" "c \<in> triState" "b \<in> triState" "re \<in> triState" "ts \<in> triState"
      and l: "l = ''<!-- begin snippet: js '' @ ''hide'' @ '': '' @ h @ c1 #
                 ''console'' @ '': '' @ c @ c2 # ''babel'' @ '': '' @ b @ c3 #
                 ''babelPresetReact'' @ '': '' @ re @ c4 # ''babelPresetTS'' @ '': '' @ ts @ c5 #
                 ''-->'' @ r6"
      by blast
    show ?case
      apply (rule exI[of _ c1], rule exI[of _ c2], rule exI[of _ c3], rule exI[of _ c4],
          rule exI[of _ c5], rule exI[of _ r6])
      using ws tri by (simp add: g l)
  next
    case 2
    then obtain s1 s2 s3 s4 s5 rest where
      ws: "regex_space s1" "regex_space s2" "regex_space s3" "regex_space s4" "regex_space s5"
      and tri: "g_hide g \<in> triState" "g_console g \<in> triState" "g_babel g \<in> triState"
        "g_babelPresetReact g \<in> triState" "g_babelPresetTS g \<in> triState"
      and l: "l = ''<!-- begin snippet: js hide: '' @ g_hide g @ s1 #
            ''console: '' @ g_console g @ s2 #
            ''babel: '' @ g_babel g @ s3 #
            ''babelPresetReact: '' @ g_babelPresetReact g @ s4 #
            ''babelPresetTS: '' @ g_babelPresetTS g @ s5 # ''-->'' @ rest"
      by blast
    show ?case
      apply (rule exI[of _ "''hide: '' @ g_hide g @ s1 #
            ''console: '' @ g_console g @ s2 #
            ''babel: '' @ g_babel g @ s3 #
            ''babelPresetReact: '' @ g_babelPresetReact g @ s4 #
            ''babelPresetTS: '' @ g_babelPresetTS g @ s5 # ''-->'' @ rest"])
      apply (rule conjI, simp add: l)
      apply (rule exI[of _ "g_hide g"], rule exI[of _ "''console: '' @ g_console g @ s2 #
            ''babel: '' @ g_babel g @ s3 #
            ''babelPresetReact: '' @ g_babelPresetReact g @ s4 #
            ''babelPresetTS: '' @ g_babelPresetTS g @ s5 # ''-->'' @ rest"])
      apply (rule conjI, rule exI[of _ s1], simp add: ws tri)
      apply (rule exI[of _ "g_console g"], rule exI[of _ "
            ''babel: '' @ g_babel g @ s3 #
            ''babelPresetReact: '' @ g_babelPresetReact g @ s4 #
            ''babelPresetTS: '' @ g_babelPresetTS g @ s5 # ''-->'' @ rest"])
      apply (rule conjI, rule exI[of _ s2], simp add: ws tri)
      apply (rule exI[of _ "g_babel g"], rule exI[of _ "
            ''babelPresetReact: '' @ g_babelPresetReact g @ s4 #
            ''babelPresetTS: '' @ g_babelPresetTS g @ s5 # ''-->'' @ rest"])
      apply (rule conjI, rule exI[of _ s3], simp add: ws tri)
      apply (rule exI[of _ "g_babelPresetReact g"], rule exI[of _ "
            ''babelPresetTS: '' @ g_babelPresetTS g @ s5 # ''-->'' @ rest"])
      apply (rule conjI, rule exI[of _ s4], simp add: ws tri)
      apply (rule exI[of _ "g_babelPresetTS g"], rule exI[of _ "''-->'' @ rest"])
      apply (rule conjI, rule exI[of _ s5], simp add: ws tri)
      apply (rule exI[of _ rest])
      apply simp
      done
  qed
  finally show ?thesis .
qed


lemma triState_truthy: "v \<in> triState \<Longrightarrow> orNull v = v \<and> truthy v"
  by (auto simp: triState_def orNull_def truthy_def)

lemma langSnippetRegex_Some:
  "langSnippetRegex l = Some lang \<longleftrightarrow>
     lang \<in> {''js'', ''css'', ''html''} \<and> (\<exists>rest. l = ''<!-- language: lang-'' @ lang @ '' -->'' @ rest)"
proof -
  have "langSnippetRegex l = Some lang \<longleftrightarrow>
     (\<exists>r. l = ''<!-- language: lang-'' @ r \<and>
        (\<exists>v r'. (v \<in> {''js'', ''css'', ''html''} \<and> r = v @ r') \<and>
           (\<exists>r''. r' = '' -->'' @ r'' \<and> v = lang)))"
    unfolding langSnippetRegex_def
    by (simp only: case_option_None_eq_Some strip_prefix_Some split_paired_Ex matchAlt_lang
        prod.case option.inject)
  then show ?thesis by auto
qed

lemma langSnippetRegex_begin:
  "langSnippetRegex (''<!-- begin snippet: js hide: '' @ r) = None"
  by (simp add: langSnippetRegex_def)


lemma mapMetaLine_Begin_shape:
  "mapMetaLine \<lparr>rawLine = l, rawIndex = i\<rparr> = Some (Begin j b re ts c h) \<longleftrightarrow>
     j = i \<and> h \<in> triState \<and> c \<in> triState \<and> b \<in> triState \<and> re \<in> triState \<and>
     ts \<in> triState \<and>
     (\<exists>s1 s2 s3 s4 s5 rest.
        regex_space s1 \<and> regex_space s2 \<and> regex_space s3 \<and> regex_space s4 \<and> regex_space s5 \<and>
        l = ''<!-- begin snippet: js hide: '' @ h @ s1 #
            ''console: '' @ c @ s2 #
            ''babel: '' @ b @ s3 #
            ''babelPresetReact: '' @ re @ s4 #
            ''babelPresetTS: '' @ ts @ s5 # ''-->'' @ rest)"
  (is "?L \<longleftrightarrow> ?R")
proof
  assume L: ?L
  then have ne: "l \<noteq> ''<!-- end snippet -->''" and nl: "langSnippetRegex l = None"
    by (auto simp: mapMetaLine_def Let_def split: if_splits option.splits)
  from L ne nl obtain g where g: "startSnippetRegex l = Some g"
    by (auto simp: mapMetaLine_def Let_def split: option.splits)
  from g have tri: "g_hide g \<in> triState" "g_console g \<in> triState" "g_babel g \<in> triState"
      "g_babelPresetReact g \<in> triState" "g_babelPresetTS g \<in> triState"
    unfolding startSnippetRegex_Some by blast+
  from L ne nl g tri have eq: "j = i" "b = g_babel g" "re = g_babelPresetReact g"
      "ts = g_babelPresetTS g" "c = g_console g" "h = g_hide g"
    by (auto simp: mapMetaLine_def Let_def triState_truthy split: if_splits)
  from g show ?R
    unfolding startSnippetRegex_Some eq using tri by blast
next
  assume R: ?R
  then obtain s1 s2 s3 s4 s5 rest where
    ws: "regex_space s1" "regex_space s2" "regex_space s3" "regex_space s4" "regex_space s5"
    and l: "l = ''<!-- begin snippet: js hide: '' @ h @ s1 #
            ''console: '' @ c @ s2 #
            ''babel: '' @ b @ s3 #
            ''babelPresetReact: '' @ re @ s4 #
            ''babelPresetTS: '' @ ts @ s5 # ''-->'' @ rest"
    by blast
  let ?g = "\<lparr>g_hide = h, g_console = c, g_babel = b,
                g_babelPresetReact = re, g_babelPresetTS = ts\<rparr>"
  have g: "startSnippetRegex l = Some ?g"
    unfolding startSnippetRegex_Some using R ws l by (simp (no_asm_simp))
  have ne: "l \<noteq> ''<!-- end snippet -->''" by (simp add: l)
  have nl: "langSnippetRegex l = None" unfolding l by (rule langSnippetRegex_begin)
  show ?L
    using R by (simp add: mapMetaLine_def Let_def ne nl g triState_truthy)
qed


text \<open>
  C4. The classifier returns a Begin meta-line for a line exactly when the line starts with
  the begin marker in which the five fields \<open>hide\<close>, \<open>console\<close>, \<open>babel\<close>,
  \<open>babelPresetReact\<close>, \<open>babelPresetTS\<close> stand in this order, each with one of the values
  \<open>true\<close>, \<open>false\<close>, \<open>null\<close> and followed by one white-space character, and \<open>-->\<close>
  follows the last; the Begin meta-line has the index of the line and these five values.
  So a line in which a field is missing, or in which the fields stand in another order, is
  never classified as Begin.
\<close>

theorem mapMetaLine_Begin_iff:
  "mapMetaLine \<lparr>rawLine = l, rawIndex = i\<rparr> = Some (Begin j b re ts c h) \<longleftrightarrow>
     j = i \<and> h \<in> triState \<and> c \<in> triState \<and> b \<in> triState \<and> re \<in> triState \<and>
     ts \<in> triState \<and>
     (\<exists>s1 s2 s3 s4 s5 rest.
        regex_space s1 \<and> regex_space s2 \<and> regex_space s3 \<and> regex_space s4 \<and> regex_space s5 \<and>
        l = ''<!-- begin snippet: js hide: '' @ h @ s1 #
            ''console: '' @ c @ s2 #
            ''babel: '' @ b @ s3 #
            ''babelPresetReact: '' @ re @ s4 #
            ''babelPresetTS: '' @ ts @ s5 # ''-->'' @ rest)"
  by (rule mapMetaLine_Begin_shape)

theorem mapMetaLine_Begin_witness:
  "mapMetaLine
     \<lparr>rawLine = ''<!-- begin snippet: js hide: null console: true babel: false babelPresetReact: null babelPresetTS: null -->'',
      rawIndex = 0\<rparr> =
   Some (Begin 0 ''false'' ''null'' ''null'' ''true'' ''null'') \<and>
   mapMetaLine
     \<lparr>rawLine = ''<!-- begin snippet: js hide: null console: true babel: false babelPresetTS: null -->'',
      rawIndex = 0\<rparr> \<noteq>
   Some (Begin 0 ''false'' ''null'' ''null'' ''true'' ''null'')"
proof -
  have "regex_space (CHR '' '')" by (simp add: regex_space_def)
  then have "\<exists>s1 s2 s3 s4 s5 rest.
        regex_space s1 \<and> regex_space s2 \<and> regex_space s3 \<and> regex_space s4 \<and> regex_space s5 \<and>
        ''<!-- begin snippet: js hide: null console: true babel: false babelPresetReact: null babelPresetTS: null -->'' =
            ''<!-- begin snippet: js hide: '' @ ''null'' @ s1 #
            ''console: '' @ ''true'' @ s2 #
            ''babel: '' @ ''false'' @ s3 #
            ''babelPresetReact: '' @ ''null'' @ s4 #
            ''babelPresetTS: '' @ ''null'' @ s5 # ''-->'' @ rest"
    by (intro exI[of _ "CHR '' ''"] exI[of _ "[]"]) simp
  then have 1: "mapMetaLine
     \<lparr>rawLine = ''<!-- begin snippet: js hide: null console: true babel: false babelPresetReact: null babelPresetTS: null -->'',
      rawIndex = 0\<rparr> =
   Some (Begin 0 ''false'' ''null'' ''null'' ''true'' ''null'')"
    unfolding mapMetaLine_Begin_iff by (simp add: triState_def)
  have 2: "mapMetaLine
     \<lparr>rawLine = ''<!-- begin snippet: js hide: null console: true babel: false babelPresetTS: null -->'',
      rawIndex = 0\<rparr> \<noteq>
   Some (Begin 0 ''false'' ''null'' ''null'' ''true'' ''null'')"
    unfolding mapMetaLine_Begin_iff by simp
  from 1 2 show ?thesis by (rule conjI)
qed

lemma mapMetaLine_Lang_shape:
  assumes "l \<noteq> ''<!-- end snippet -->''"
  shows "mapMetaLine \<lparr>rawLine = l, rawIndex = i\<rparr> = Some (Lang j lang) \<longleftrightarrow>
     j = i \<and> lang \<in> {''js'', ''css'', ''html''} \<and>
     (\<exists>rest. l = ''<!-- language: lang-'' @ lang @ '' -->'' @ rest)"
proof (cases "langSnippetRegex l")
  case None
  then have "\<not> (lang \<in> {''js'', ''css'', ''html''} \<and>
     (\<exists>rest. l = ''<!-- language: lang-'' @ lang @ '' -->'' @ rest))"
    using langSnippetRegex_Some[of l lang] by simp
  then show ?thesis
    using None assms by (auto simp: mapMetaLine_def Let_def split: option.splits)
next
  case (Some lang')
  then have a: "lang' \<in> {''js'', ''css'', ''html''}"
    and b: "\<exists>rest. l = ''<!-- language: lang-'' @ lang' @ '' -->'' @ rest"
    using langSnippetRegex_Some[of l lang'] by simp_all
  have "langSnippetRegex l = Some lang \<longleftrightarrow> lang = lang'" using Some by auto
  then have c: "lang \<in> {''js'', ''css'', ''html''} \<and>
     (\<exists>rest. l = ''<!-- language: lang-'' @ lang @ '' -->'' @ rest) \<longleftrightarrow> lang = lang'"
    using langSnippetRegex_Some[of l lang] by simp
  show ?thesis
    using Some assms c by (auto simp: mapMetaLine_def Let_def)
qed


text \<open>
  C8, as the code has it. For a line that is not the end marker, the classifier returns a
  Lang meta-line exactly when the line starts with \<open><!-- language: lang-\<close>, one of the
  tokens \<open>js\<close>, \<open>css\<close>, \<open>html\<close> and \<open> -->\<close>; anything may follow on the line. The
  language of the meta-line is that token, its index the index of the line.
\<close>

theorem mapMetaLine_Lang_iff:
  assumes "l \<noteq> ''<!-- end snippet -->''"
  shows "mapMetaLine \<lparr>rawLine = l, rawIndex = i\<rparr> = Some (Lang j lang) \<longleftrightarrow>
     j = i \<and> lang \<in> {''js'', ''css'', ''html''} \<and>
     (\<exists>rest. l = ''<!-- language: lang-'' @ lang @ '' -->'' @ rest)"
  using assms by (rule mapMetaLine_Lang_shape)

theorem mapMetaLine_Lang_witness:
  "mapMetaLine \<lparr>rawLine = ''<!-- language: lang-css -->'', rawIndex = 7\<rparr> =
     Some (Lang 7 ''css'')"
proof -
  have "\<exists>rest. ''<!-- language: lang-css -->'' = ''<!-- language: lang-'' @ ''css'' @ '' -->'' @ rest"
    by (intro exI[of _ "[]"]) simp
  then show ?thesis
    using mapMetaLine_Lang_iff[of "''<!-- language: lang-css -->''" 7 7 "''css''"] by simp
qed

text \<open>
  C8 as it is stated fails: this line is not the end marker and has more than the marker
  of a language, and the classifier returns a Lang meta-line for it.
\<close>

theorem mapMetaLine_Lang_counterexample:
  "mapMetaLine \<lparr>rawLine = ''<!-- language: lang-js --> -->'', rawIndex = 3\<rparr> =
     Some (Lang 3 ''js'') \<and>
   ''<!-- language: lang-js --> -->'' \<noteq> ''<!-- end snippet -->'' \<and>
   ''<!-- language: lang-js --> -->'' \<noteq> ''<!-- language: lang-'' @ ''js'' @ '' -->'' \<and>
   ''<!-- language: lang-js --> -->'' \<noteq> ''<!-- language: lang-'' @ ''css'' @ '' -->'' \<and>
   ''<!-- language: lang-js --> -->'' \<noteq> ''<!-- language: lang-'' @ ''html'' @ '' -->''"
  by (simp add: mapMetaLine_def langSnippetRegex_def)

section \<open>The region validator: duplicates, early success, exhaustion\<close>

lemma validateCase_slot:
  "slotOf m = Some s \<Longrightarrow>
   validateCase vr m =
     (if truthyIndex (slotIndex s vr) then Inl (duplicate (duplicateReason s))
      else Inr (setSlot s (index m) vr))"
  by (cases m; cases s) (auto split: if_splits)

lemma validateCase_noslot: "slotOf m = None \<Longrightarrow> validateCase vr m = Inr vr"
  by (cases m) (auto split: if_splits)

lemma slotIndex_setSlot:
  "slotIndex s' (setSlot s i vr) = (if s' = s then Some i else slotIndex s' vr)"
  by (cases s; cases s') auto

lemma setSlot_other [simp]:
  "valid (setSlot s i vr) = valid vr" "reason (setSlot s i vr) = reason vr"
  by (cases s; simp)+

lemma slots_Cons:
  "slots (m # ms) = (case slotOf m of None \<Rightarrow> slots ms | Some s \<Rightarrow> s # slots ms)"
  by (simp add: slots_def split: option.splits)

lemma slots_Nil [simp]: "slots [] = []"
  by (simp add: slots_def)

lemma slots_append: "slots (xs @ ys) = slots xs @ slots ys"
  by (induction xs) (auto simp: slots_Cons split: option.splits)

lemma validateLoop_quiet:
  "distinct (slots pre) \<Longrightarrow> (\<forall>s \<in> set (slots pre). slotIndex s vr = None) \<Longrightarrow>
   \<not> bothAfter vr pre \<Longrightarrow>
   validateLoop vr (pre @ rest) = validateLoop (recordAll vr pre) rest"
proof (induction pre arbitrary: vr)
  case Nil
  then show ?case by simp
next
  case (Cons m pre)
  show ?case
  proof (cases "slotOf m")
    case None
    from Cons.prems None have nb: "\<not> (beginIndex vr \<noteq> None \<and> endIndex vr \<noteq> None)"
      by (auto simp: bothAfter_def)
    have "validateLoop vr ((m # pre) @ rest) = validateLoop vr (pre @ rest)"
      using nb by (auto simp: validateCase_noslot[OF None])
    also have "\<dots> = validateLoop (recordAll vr pre) rest"
      using Cons.prems None by (intro Cons.IH) (auto simp: slots_Cons bothAfter_def)
    finally show ?thesis using None by simp
  next
    case (Some s)
    let ?vr = "setSlot s (index m) vr"
    from Cons.prems Some have free: "slotIndex s vr = None" and notin: "s \<notin> set (slots pre)"
      and dist: "distinct (slots pre)"
      by (auto simp: slots_Cons)
    have nb: "\<not> (beginIndex ?vr \<noteq> None \<and> endIndex ?vr \<noteq> None)"
      using Cons.prems(3) Some by (cases s) (auto simp: bothAfter_def slots_Cons)
    have "validateLoop vr ((m # pre) @ rest) = validateLoop ?vr (pre @ rest)"
      using nb free by (auto simp: validateCase_slot[OF Some] truthyIndex_def)
    also have "\<dots> = validateLoop (recordAll ?vr pre) rest"
    proof (intro Cons.IH dist)
      show "\<forall>s'\<in>set (slots pre). slotIndex s' ?vr = None"
        using Cons.prems(2) Some notin by (auto simp: slots_Cons slotIndex_setSlot)
      show "\<not> bothAfter ?vr pre"
        using Cons.prems(3) Some by (cases s) (auto simp: bothAfter_def slots_Cons)
    qed
    finally show ?thesis using Some by simp
  qed
qed


lemma firstIndex_Nil [simp]: "firstIndex s [] = None"
  by (simp add: firstIndex_def)

lemma firstIndex_Cons:
  "firstIndex s (m # ms) = (if slotOf m = Some s then Some (index m) else firstIndex s ms)"
  by (simp add: firstIndex_def)

lemma firstIndex_None: "firstIndex s ml = None \<longleftrightarrow> s \<notin> set (slots ml)"
  by (induction ml) (auto simp: firstIndex_Cons slots_Cons split: option.splits)

lemma firstIndex_append:
  "firstIndex s (xs @ ys) = (case firstIndex s xs of None \<Rightarrow> firstIndex s ys | Some i \<Rightarrow> Some i)"
  by (induction xs) (auto simp: firstIndex_Cons)

lemma recordAll_other [simp]:
  "valid (recordAll vr ml) = valid vr" "reason (recordAll vr ml) = reason vr"
  by (induction ml arbitrary: vr; simp split: option.splits)+

lemma recordAll_slotIndex:
  "distinct (slots ml) \<Longrightarrow>
   slotIndex s (recordAll vr ml) =
     (case firstIndex s ml of None \<Rightarrow> slotIndex s vr | Some i \<Rightarrow> Some i)"
proof (induction ml arbitrary: vr)
  case Nil
  then show ?case by simp
next
  case (Cons m ml)
  show ?case
  proof (cases "slotOf m")
    case None
    then show ?thesis using Cons by (simp add: firstIndex_Cons slots_Cons)
  next
    case (Some s')
    with Cons.prems have d: "distinct (slots ml)" and n: "s' \<notin> set (slots ml)"
      by (auto simp: slots_Cons)
    show ?thesis
      using Some n by (auto simp: Cons.IH[OF d] firstIndex_Cons slotIndex_setSlot
          firstIndex_None[symmetric] split: option.splits)
  qed
qed

lemma slotIndex_initialResult [simp]: "slotIndex s initialResult = None"
  by (cases s) (simp_all add: initialResult_def)

lemma initialResult_fields [simp]: "beginIndex initialResult = None" "endIndex initialResult = None"
  by (simp_all add: initialResult_def)

lemma validationResult_eqI:
  "valid a = valid b \<Longrightarrow> reason a = reason b \<Longrightarrow> (\<And>s. slotIndex s a = slotIndex s b) \<Longrightarrow>
   (a::ValidationResult) = b"
proof -
  assume v: "valid a = valid b" and r: "reason a = reason b"
    and s: "\<And>s. slotIndex s a = slotIndex s b"
  from s[of SlotBegin] s[of SlotEnd] s[of SlotJs] s[of SlotHtml] s[of SlotCss] v r
  show ?thesis by simp
qed

lemma slotIndex_recorded [simp]: "slotIndex s (recorded v r ml) = firstIndex s ml"
  by (cases s) (simp_all add: recorded_def)

lemma recordAll_initialResult:
  assumes "distinct (slots ml)"
  shows "recordAll initialResult ml = recorded False (Some ''Did not discover beginning and end'') ml"
proof (rule validationResult_eqI)
  fix s
  show "slotIndex s (recordAll initialResult ml) =
        slotIndex s (recorded False (Some ''Did not discover beginning and end'') ml)"
    by (simp add: recordAll_slotIndex[OF assms] split: option.splits)
qed (simp_all add: initialResult_def recorded_def)


lemma validate_exhausted:
  assumes "distinct (slots ml)"
    and "\<not> (SlotBegin \<in> set (slots ml) \<and> SlotEnd \<in> set (slots ml))"
  shows "validateMetaLines ml = recorded False (Some ''Did not discover beginning and end'') ml"
proof -
  have "validateLoop initialResult (ml @ []) = validateLoop (recordAll initialResult ml) []"
    using assms by (intro validateLoop_quiet) (auto simp: bothAfter_def)
  then show ?thesis
    by (simp add: validateMetaLines_def recordAll_initialResult[OF assms(1)])
qed

lemma validate_duplicate_aux:
  assumes "distinct (slots pre)"
    and "\<not> (SlotBegin \<in> set (slots pre) \<and> SlotEnd \<in> set (slots pre))"
    and "slotOf m = Some s" and "firstIndex s pre = Some i" and "i \<noteq> 0"
  shows "validateMetaLines (pre @ m # post) = duplicate (duplicateReason s)"
proof -
  have "validateLoop initialResult (pre @ m # post) = validateLoop (recordAll initialResult pre) (m # post)"
    using assms by (intro validateLoop_quiet) (auto simp: bothAfter_def)
  moreover have "slotIndex s (recordAll initialResult pre) = Some i"
    using assms by (simp add: recordAll_slotIndex)
  ultimately show ?thesis
    using assms(5) by (simp add: validateMetaLines_def
        validateCase_slot[OF assms(3)] truthyIndex_def)
qed

lemma validate_early_success:
  assumes "distinct (slots (pre @ [m]))"
    and "\<not> (SlotBegin \<in> set (slots pre) \<and> SlotEnd \<in> set (slots pre))"
    and "SlotBegin \<in> set (slots (pre @ [m]))" and "SlotEnd \<in> set (slots (pre @ [m]))"
  shows "validateMetaLines (pre @ m # post) = recorded True None (pre @ [m])"
proof -
  from assms obtain s where s: "slotOf m = Some s" and sn: "s \<notin> set (slots pre)"
    and d: "distinct (slots pre)"
    by (auto simp: slots_append slots_Cons split: option.splits)
  let ?vr = "setSlot s (index m) (recordAll initialResult pre)"
  have 1: "validateLoop initialResult (pre @ m # post) = validateLoop (recordAll initialResult pre) (m # post)"
    using assms d by (intro validateLoop_quiet) (auto simp: bothAfter_def)
  have free: "slotIndex s (recordAll initialResult pre) = None"
    using sn d by (simp add: recordAll_slotIndex firstIndex_None[symmetric])
  have idx: "slotIndex s' ?vr = firstIndex s' (pre @ [m])" for s'
    using s sn d by (auto simp: slotIndex_setSlot recordAll_slotIndex firstIndex_append
        firstIndex_Cons firstIndex_None[symmetric] split: option.splits)
  have both: "beginIndex ?vr \<noteq> None \<and> endIndex ?vr \<noteq> None"
    using idx[of SlotBegin] idx[of SlotEnd] assms(3,4) by (simp add: firstIndex_None)
  have "validateMetaLines (pre @ m # post) = ?vr\<lparr>valid := True, reason := None\<rparr>"
    using 1 free both by (auto simp add: validateMetaLines_def
        validateCase_slot[OF s] truthyIndex_def)
  also have "\<dots> = recorded True None (pre @ [m])"
  proof (rule validationResult_eqI)
    fix s'
    have "slotIndex s' (?vr\<lparr>valid := True, reason := None\<rparr>) = slotIndex s' ?vr"
      by (cases s') simp_all
    then show "slotIndex s' (?vr\<lparr>valid := True, reason := None\<rparr>) =
          slotIndex s' (recorded True None (pre @ [m]))"
      by (simp add: idx)
  qed (simp_all add: recorded_def)
  finally show ?thesis .
qed

text \<open>
  C2, as the code has it. Let the scan reach a meta-line \<open>m\<close> of a category (Begin, End,
  or a language marker of \<open>js\<close>, \<open>html\<close> or \<open>css\<close>) after meta-lines \<open>pre\<close> without a
  duplicate that do not hold both a Begin and an End, and let the first meta-line of the
  category of \<open>m\<close> in \<open>pre\<close> have a source line index that is not 0. Then the validator
  returns invalid with the duplicate reason of that category and no position, whatever
  follows \<open>m\<close>: the failure is reported at the first duplicate in source order.
\<close>

theorem validateMetaLines_duplicate:
  assumes "distinct (slots pre)"
    and "\<not> (SlotBegin \<in> set (slots pre) \<and> SlotEnd \<in> set (slots pre))"
    and "slotOf m = Some s" and "firstIndex s pre = Some i" and "i \<noteq> 0"
  shows "validateMetaLines (pre @ m # post) = duplicate (duplicateReason s)"
  using assms by (rule validate_duplicate_aux)

theorem validateMetaLines_duplicate_witness:
  "validateMetaLines
     [Begin 1 ''false'' ''null'' ''null'' ''true'' ''null'', Lang 3 ''js'', Lang 7 ''js'', End 9] =
   \<lparr>valid = False, beginIndex = None, endIndex = None, htmlIndex = None,
    cssIndex = None, jsIndex = None, reason = Some ''Duplicate JS block''\<rparr>"
  using validateMetaLines_duplicate[of
      "[Begin 1 ''false'' ''null'' ''null'' ''true'' ''null'', Lang 3 ''js'']"
      "Lang 7 ''js''" SlotJs 3 "[End 9]"]
  by (simp add: slots_def firstIndex_def duplicate_def)

text \<open>
  C2 as it is stated fails. A sequence with two Begin meta-lines is declared valid when the
  second comes after a Begin and an End: the scan stops there.
\<close>

theorem validateMetaLines_duplicate_counterexample:
  "validateMetaLines
     [Begin 1 ''false'' ''null'' ''null'' ''true'' ''null'', End 2,
      Begin 3 ''false'' ''null'' ''null'' ''true'' ''null''] =
   \<lparr>valid = True, beginIndex = Some 1, endIndex = Some 2, htmlIndex = None,
    cssIndex = None, jsIndex = None, reason = None\<rparr>"
  by (simp add: validateMetaLines_def initialResult_def truthyIndex_def)

text \<open>
  The test of a recorded position is \<^verbatim>\<open>if (validationResult.beginIndex)\<close>, which is
  false for the position 0: a second Begin after a Begin at the source line 0 is recorded
  over the first and is not reported.
\<close>

lemma validateMetaLines_first_at_line_0:
  "validateMetaLines
     [Begin 0 ''false'' ''null'' ''null'' ''true'' ''null'',
      Begin 5 ''false'' ''null'' ''null'' ''true'' ''null''] =
   \<lparr>valid = False, beginIndex = Some 5, endIndex = None, htmlIndex = None,
    cssIndex = None, jsIndex = None, reason = Some ''Did not discover beginning and end''\<rparr>"
  "validateMetaLines
     [Begin 0 ''false'' ''null'' ''null'' ''true'' ''null'',
      Begin 5 ''false'' ''null'' ''null'' ''true'' ''null'', End 9] =
   \<lparr>valid = True, beginIndex = Some 5, endIndex = Some 9, htmlIndex = None,
    cssIndex = None, jsIndex = None, reason = None\<rparr>"
  by (simp_all add: validateMetaLines_def initialResult_def truthyIndex_def)

text \<open>
  C5. The validator declares a sequence valid at the first meta-line \<open>m\<close> with which it
  has both a Begin and an End, when no category occurs twice up to \<open>m\<close>: the result is
  valid, has no reason, and has the positions of the meta-lines up to \<open>m\<close>, whatever
  follows \<open>m\<close>; a Begin and an End with no language marker are enough. A sequence without
  a duplicate that does not hold both a Begin and an End is scanned to its end, and the
  result is invalid with the reason \<open>Did not discover beginning and end\<close> and the positions
  found.
\<close>

theorem validateMetaLines_success_and_exhaustion:
  "(distinct (slots (pre @ [m])) \<and>
    \<not> (SlotBegin \<in> set (slots pre) \<and> SlotEnd \<in> set (slots pre)) \<and>
    SlotBegin \<in> set (slots (pre @ [m])) \<and> SlotEnd \<in> set (slots (pre @ [m])) \<longrightarrow>
    validateMetaLines (pre @ m # post) = recorded True None (pre @ [m])) \<and>
   (distinct (slots ml) \<and> \<not> (SlotBegin \<in> set (slots ml) \<and> SlotEnd \<in> set (slots ml)) \<longrightarrow>
    validateMetaLines ml = recorded False (Some ''Did not discover beginning and end'') ml)"
  using validate_early_success[of pre m post] validate_exhausted[of ml] by blast

theorem validateMetaLines_success_and_exhaustion_witness:
  "validateMetaLines
     [Begin 0 ''false'' ''null'' ''null'' ''true'' ''null'', End 2, Lang 4 ''js'', Lang 6 ''js'',
      Begin 8 ''false'' ''null'' ''null'' ''true'' ''null''] =
   \<lparr>valid = True, beginIndex = Some 0, endIndex = Some 2, htmlIndex = None,
    cssIndex = None, jsIndex = None, reason = None\<rparr> \<and>
   validateMetaLines [Begin 0 ''false'' ''null'' ''null'' ''true'' ''null'', Lang 2 ''css''] =
   \<lparr>valid = False, beginIndex = Some 0, endIndex = None, htmlIndex = None,
    cssIndex = Some 2, jsIndex = None, reason = Some ''Did not discover beginning and end''\<rparr>"
  using validateMetaLines_success_and_exhaustion[of
      "[Begin 0 ''false'' ''null'' ''null'' ''true'' ''null'']" "End 2"
      "[Lang 4 ''js'', Lang 6 ''js'', Begin 8 ''false'' ''null'' ''null'' ''true'' ''null'']"
      "[Begin 0 ''false'' ''null'' ''null'' ''true'' ''null'', Lang 2 ''css'']"]
  by (simp add: slots_def firstIndex_def recorded_def)

section \<open>The block extractor\<close>

lemma duplicate_invalid [simp]: "\<not> valid (duplicate r)"
  by (simp add: duplicate_def)

lemma validateCase_Inl: "validateCase vr m = Inl r \<Longrightarrow> \<not> valid r"
  by (cases m) (auto split: if_splits)

lemma validateCase_Inr:
  "validateCase vr m = Inr vr' \<Longrightarrow>
     valid vr' = valid vr \<and>
     (beginIndex vr' \<noteq> None \<longrightarrow> beginIndex vr \<noteq> None \<or> isBegin m) \<and>
     (endIndex vr' \<noteq> None \<longrightarrow> endIndex vr \<noteq> None \<or> isEnd m)"
  by (cases m) (auto split: if_splits)

lemma valid_validateLoop:
  "valid (validateLoop vr ml) \<Longrightarrow> \<not> valid vr \<Longrightarrow>
     (beginIndex vr \<noteq> None \<or> (\<exists>m\<in>set ml. isBegin m)) \<and>
     (endIndex vr \<noteq> None \<or> (\<exists>m\<in>set ml. isEnd m))"
proof (induction ml arbitrary: vr)
  case Nil
  then show ?case by simp
next
  case (Cons m ml)
  show ?case
  proof (cases "validateCase vr m")
    case (Inl r)
    with Cons.prems validateCase_Inl[OF Inl] show ?thesis by simp
  next
    case (Inr vr')
    note step = validateCase_Inr[OF Inr]
    show ?thesis
    proof (cases "beginIndex vr' \<noteq> None \<and> endIndex vr' \<noteq> None")
      case True
      with step show ?thesis by auto
    next
      case False
      with Cons.prems Inr have "valid (validateLoop vr' ml)" by auto
      moreover have "\<not> valid vr'" using step Cons.prems(2) by simp
      ultimately have "(beginIndex vr' \<noteq> None \<or> (\<exists>m\<in>set ml. isBegin m)) \<and>
         (endIndex vr' \<noteq> None \<or> (\<exists>m\<in>set ml. isEnd m))"
        by (rule Cons.IH)
      with step show ?thesis by auto
    qed
  qed
qed

lemma valid_has_begin_end:
  assumes "valid (validateMetaLines ml)"
  shows "(\<exists>m\<in>set ml. isBegin m) \<and> (\<exists>m\<in>set ml. isEnd m)"
  using valid_validateLoop[of initialResult ml] assms
  by (simp add: validateMetaLines_def initialResult_def)

lemma isBegin_not_isEnd: "isBegin m \<Longrightarrow> \<not> isEnd m"
  by (cases m) auto

lemma valid_shape:
  assumes "valid (validateMetaLines ml)"
  obtains bg mid en where "ml = bg # mid @ [en]"
proof -
  from valid_has_begin_end[OF assms] obtain b e where
    b: "b \<in> set ml" "isBegin b" and e: "e \<in> set ml" "isEnd e" by blast
  then have "b \<noteq> e" using isBegin_not_isEnd by blast
  obtain x xs where ml: "ml = x # xs"
    using b(1) by (cases ml) auto
  have "xs \<noteq> []"
  proof
    assume "xs = []"
    with ml b e have "b = x" "e = x" by auto
    with \<open>b \<noteq> e\<close> show False by simp
  qed
  then obtain ys y where "xs = ys @ [y]"
    by (metis rev_exhaust)
  with ml that show thesis by blast
qed

lemma commitSnippet_shape:
  "commitSnippet state (begin # middle @ [end]) =
     (if \<not> isBegin begin then Some (False, state)
      else if \<not> isEnd end then Some (False, state)
      else
        (let langSort = sort_key index (filter isLang middle) in
         if \<not> list_all isLang langSort then Some (False, state)
         else
           (let s1 = pushOpen state begin;
                s2 = pushLangs s1 langSort (index end);
                s3 = push s2 ''stack_snippet_close'' ''code'' (- 1)
            in Some (True, s3\<lparr>line := index end + 1\<rparr>))))"
  by (simp add: commitSnippet_def)

lemma langSort_all_isLang: "list_all isLang (sort_key index (filter isLang ms))"
  by (simp add: list_all_iff)

lemma parseSnippetBlock_returns: "parseSnippetBlock state startLine endLine silent \<noteq> None"
proof (cases "valid (validateMetaLines (collectMetaLines state startLine endLine))")
  case True
  then obtain bg mid en where
    "collectMetaLines state startLine endLine = bg # mid @ [en]"
    by (rule valid_shape)
  then show ?thesis
    by (auto simp: parseSnippetBlock_def Let_def commitSnippet_shape)
next
  case False
  then show ?thesis by (auto simp: parseSnippetBlock_def Let_def)
qed

text \<open>
  C3. In trial mode (\<open>silent\<close>) \<open>parseSnippetBlock\<close> returns a boolean and leaves the
  whole state as it was, whatever the span is: no token is pushed and \<open>state.line\<close> is
  unchanged.
\<close>

theorem parseSnippetBlock_silent:
  "\<exists>b. parseSnippetBlock state startLine endLine True = Some (b, state)"
  by (auto simp: parseSnippetBlock_def Let_def)

theorem parseSnippetBlock_silent_witness:
  "parseSnippetBlock (newStateBlock blankLineDocument) 0 10 True =
     Some (True, newStateBlock blankLineDocument) \<and>
   parseSnippetBlock (newStateBlock []) 0 0 True = Some (False, newStateBlock [])"
proof -
  obtain b where b: "parseSnippetBlock (newStateBlock blankLineDocument) 0 10 True =
     Some (b, newStateBlock blankLineDocument)"
    using parseSnippetBlock_silent by blast
  have "fst (the (parseSnippetBlock (newStateBlock blankLineDocument) 0 10 True)) = True"
    by code_simp
  with b have 1: "parseSnippetBlock (newStateBlock blankLineDocument) 0 10 True =
     Some (True, newStateBlock blankLineDocument)"
    by simp
  obtain c where c: "parseSnippetBlock (newStateBlock []) 0 0 True = Some (c, newStateBlock [])"
    using parseSnippetBlock_silent by blast
  have "fst (the (parseSnippetBlock (newStateBlock []) 0 0 True)) = False"
    by code_simp
  with c have 2: "parseSnippetBlock (newStateBlock []) 0 0 True = Some (False, newStateBlock [])"
    by simp
  from 1 2 show ?thesis by (rule conjI)
qed

text \<open>
  C10. In committing mode, when the validator has accepted the collected meta-lines and
  the first of them is not a Begin, or the last is not an End, or one of the sorted rest
  is not a Lang, \<open>parseSnippetBlock\<close> returns false and leaves the whole state as it was:
  no token is pushed and \<open>state.line\<close> is unchanged.
\<close>

theorem parseSnippetBlock_abort:
  assumes "valid (validateMetaLines (collectMetaLines state startLine endLine))"
    and "\<not> isBegin (hd (collectMetaLines state startLine endLine)) \<or>
         \<not> isEnd (last (collectMetaLines state startLine endLine)) \<or>
         \<not> list_all isLang (sort_key index (filter isLang
               (butlast (tl (collectMetaLines state startLine endLine)))))"
  shows "parseSnippetBlock state startLine endLine False = Some (False, state)"
proof -
  from assms(1) obtain bg mid en where
    ml: "collectMetaLines state startLine endLine = bg # mid @ [en]"
    by (rule valid_shape)
  from assms(2) have "\<not> isBegin bg \<or> \<not> isEnd en"
    by (simp add: ml langSort_all_isLang)
  then have "commitSnippet state (bg # mid @ [en]) = Some (False, state)"
    by (auto simp: commitSnippet_shape)
  then show ?thesis
    by (simp add: parseSnippetBlock_def Let_def ml)
qed

theorem parseSnippetBlock_abort_witness:
  "parseSnippetBlock (newStateBlock strayLangDocument) 0 3 False =
     Some (False, newStateBlock strayLangDocument)"
proof -
  have v: "valid (validateMetaLines (collectMetaLines (newStateBlock strayLangDocument) 0 3))"
    by code_simp
  have a: "\<not> isBegin (hd (collectMetaLines (newStateBlock strayLangDocument) 0 3)) \<or>
         \<not> isEnd (last (collectMetaLines (newStateBlock strayLangDocument) 0 3)) \<or>
         \<not> list_all isLang (sort_key index (filter isLang
               (butlast (tl (collectMetaLines (newStateBlock strayLangDocument) 0 3)))))"
    by code_simp
  from parseSnippetBlock_abort[OF v a] show ?thesis .
qed

section \<open>The tokens of a recognized region\<close>

lemma pushOpen_eq:
  "pushOpen st bg =
     st\<lparr>stLevel := stLevel st + 1, tokens := tokens st @ [openToken (stLevel st) bg]\<rparr>"
  by (simp add: pushOpen_def push_def modifyToken_def Let_def attrSet_def newToken_def
      openToken_def)

lemma getLine_frame [simp]:
  "getLine (st\<lparr>stLevel := a, tokens := b\<rparr>) x y z w = getLine st x y z w"
  by (simp add: getLine_def cong: option.case_cong)

lemma getLines_frame [simp]:
  "getLines (st\<lparr>stLevel := a, tokens := b\<rparr>) x y z w = getLines st x y z w"
  by (simp add: getLines_def)

lemma langTokens_frame [simp]:
  "langTokens (st\<lparr>stLevel := a, tokens := b\<rparr>) lvl ls e = langTokens st lvl ls e"
  by (induction ls arbitrary: lvl) (simp_all add: langToken_def)

lemma pushLangs_eq:
  "pushLangs st ls e =
     st\<lparr>stLevel := stLevel st + int (length ls),
        tokens := tokens st @ langTokens st (stLevel st) ls e\<rparr>"
proof (induction ls arbitrary: st)
  case Nil
  then show ?case by simp
next
  case (Cons l ls)
  let ?langEnd = "case ls of [] \<Rightarrow> e | n # r \<Rightarrow> index n"
  let ?st = "st\<lparr>stLevel := stLevel st + 1,
                tokens := tokens st @ [langToken st (stLevel st) l ?langEnd]\<rparr>"
  have "pushLangs st (l # ls) e = pushLangs ?st ls e"
    by (simp add: push_def modifyToken_def Let_def attrSet_def newToken_def langToken_def)
  also have "\<dots> = ?st\<lparr>stLevel := stLevel ?st + int (length ls),
        tokens := tokens ?st @ langTokens ?st (stLevel ?st) ls e\<rparr>"
    by (rule Cons.IH)
  finally show ?case by simp
qed

lemma commitSnippet_emits:
  assumes "isBegin bg" "isEnd en"
  shows "commitSnippet state (bg # mid @ [en]) =
     Some (True,
       state\<lparr>line := index en + 1,
             stLevel := stLevel state + int (length (filter isLang mid)),
             tokens := tokens state @
               openToken (stLevel state) bg #
               langTokens state (stLevel state + 1) (sort_key index (filter isLang mid)) (index en) @
               [closeToken (stLevel state + int (length (filter isLang mid)))]\<rparr>)"
  using assms
  by (simp add: commitSnippet_shape langSort_all_isLang Let_def pushOpen_eq pushLangs_eq
      push_def newToken_def closeToken_def)

lemma langTokens_length [simp]: "length (langTokens st lvl ls e) = length ls"
  by (induction ls arbitrary: lvl) simp_all

lemma langTokens_nth:
  "i < length ls \<Longrightarrow>
   langTokens st lvl ls e ! i =
     langToken st (lvl + int i) (ls ! i) (if i + 1 = length ls then e else index (ls ! (i + 1)))"
proof (induction ls arbitrary: i lvl)
  case Nil
  then show ?case by simp
next
  case (Cons l ls)
  show ?case
  proof (cases i)
    case 0
    then show ?thesis by (cases ls) simp_all
  next
    case (Suc j)
    with Cons.prems have "j < length ls" by simp
    from Cons.IH[OF this, of "lvl + 1"] Suc show ?thesis by (simp add: add.assoc)
  qed
qed

lemma skipIndent_padded:
  "skipIndent 4 bs ts 0 0 (''    '' @ r) = (4, r)"
proof -
  have "skipIndent 4 bs ts 4 4 r = (4, r)" by (cases r) simp_all
  then show ?thesis by (simp add: isSpace_def eval_nat_numeral)
qed

lemma skipIndent_LF:
  "skipIndent 4 bs (Some 0) 0 0 [LF] = (0, [LF])"
  by (simp add: isSpace_def LF_def)

lemma slice_Some: "slice s (Some b) (Some e) = take (e - b) (drop b s)"
  by (simp add: slice_def)

lemma lineAt_slices:
  assumes "lineAt state ln l"
  obtains b where "nth_opt (bMarks state) ln = Some b"
    "nth_opt (eMarks state) ln = Some (b + length l)"
    "slice (src state) (Some b) (Some (b + length l + 1)) = l @ [LF]"
    "slice (src state) (Some b) (Some (b + length l)) = l"
    "nth_opt (tShift state) ln = Some (int (length (takeWhile isSpace l)))"
proof -
  from assms obtain b where b: "nth_opt (bMarks state) ln = Some b"
    and e: "nth_opt (eMarks state) ln = Some (b + length l)"
    and s: "slice (src state) (Some b) (Some (b + length l + 1)) = l @ [LF]"
    and t: "nth_opt (tShift state) ln = Some (int (length (takeWhile isSpace l)))"
    by (auto simp: lineAt_def split: option.splits)
  from s have "take (Suc (length l)) (drop b (src state)) = l @ [LF]"
    by (simp add: slice_Some)
  then have "take (length l) (take (Suc (length l)) (drop b (src state))) = take (length l) (l @ [LF])"
    by simp
  then have "take (length l) (drop b (src state)) = l"
    by (simp add: min_def)
  then have "slice (src state) (Some b) (Some (b + length l)) = l"
    by (simp add: slice_Some)
  with b e s t that show thesis by blast
qed

lemma getLine_deindent:
  assumes "lineAt state ln l" and "l = [] \<or> take 4 l = ''    ''"
  shows "getLine state ln e 4 False = drop 4 l @ (if ln + 1 < e then [LF] else [])"
proof -
  from assms(1) obtain b where b: "nth_opt (bMarks state) ln = Some b"
    and em: "nth_opt (eMarks state) ln = Some (b + length l)"
    and s1: "slice (src state) (Some b) (Some (b + length l + 1)) = l @ [LF]"
    and s0: "slice (src state) (Some b) (Some (b + length l)) = l"
    and t: "nth_opt (tShift state) ln = Some (int (length (takeWhile isSpace l)))"
    by (rule lineAt_slices)
  from assms(2) show ?thesis
  proof
    assume l: "l = []"
    then show ?thesis
      using b em s1 s0 t by (simp add: getLine_def Let_def skipIndent_LF del: skipIndent.simps(2))
  next
    assume "take 4 l = ''    ''"
    then have l: "l = ''    '' @ drop 4 l"
      by (metis append_take_drop_id)
    have sk: "skipIndent 4 bs ts 0 0 (l @ x) = (4, drop 4 l @ x)" for bs ts x
      using skipIndent_padded[of bs ts "drop 4 l @ x"] l
      by (metis append.assoc)
    show ?thesis
      using b em s1 s0 sk sk[of _ _ "[]"]
      by (simp add: getLine_def Let_def del: skipIndent.simps(2))
  qed
qed

lemma getLines_deindent:
  assumes "ls \<noteq> []"
    and "\<forall>i<length ls. lineAt state (b + i) (ls ! i) \<and> (ls ! i = [] \<or> take 4 (ls ! i) = ''    '')"
  shows "getLines state b (b + length ls) 4 False = joinLF (map (drop 4) ls)"
proof -
  have "e = b + length ls \<Longrightarrow>
     \<forall>i<length ls. lineAt state (b + i) (ls ! i) \<and> (ls ! i = [] \<or> take 4 (ls ! i) = ''    '') \<Longrightarrow>
     ls \<noteq> [] \<Longrightarrow>
     concat (map (\<lambda>ln. getLine state ln e 4 False) [b..<b + length ls]) = joinLF (map (drop 4) ls)"
    for e
  proof (induction ls arbitrary: b)
    case Nil
    then show ?case by simp
  next
    case (Cons l ls)
    from Cons.prems(2) have l0: "lineAt state b l" "l = [] \<or> take 4 l = ''    ''"
      by force+
    have up: "concat (map (\<lambda>ln. getLine state ln e 4 False) [b..<b + length (l # ls)]) =
        getLine state b e 4 False @
        concat (map (\<lambda>ln. getLine state ln e 4 False) [Suc b..<Suc b + length ls])"
    proof -
      have "[b..<b + length (l # ls)] = b # [Suc b..<Suc b + length ls]"
        by (simp add: upt_conv_Cons del: upt_Suc)
      then show ?thesis by (simp only: list.map concat.simps)
    qed
    show ?case
    proof (cases ls)
      case Nil
      then show ?thesis
        using getLine_deindent[OF l0, of e] Cons.prems(1) by simp
    next
      case (Cons l' ls')
      have rest: "\<forall>i<length ls. lineAt state (Suc b + i) (ls ! i) \<and>
            (ls ! i = [] \<or> take 4 (ls ! i) = ''    '')"
      proof (intro allI impI)
        fix i assume "i < length ls"
        then have "Suc i < length (l # ls)" by simp
        from Cons.prems(2)[rule_format, OF this] show "lineAt state (Suc b + i) (ls ! i) \<and>
            (ls ! i = [] \<or> take 4 (ls ! i) = ''    '')" by simp
      qed
      have "concat (map (\<lambda>ln. getLine state ln e 4 False) [Suc b..<Suc b + length ls]) =
            joinLF (map (drop 4) ls)"
        using Cons.prems(1) Cons by (intro Cons.IH rest) simp_all
      moreover have "getLine state b e 4 False = drop 4 l @ [LF]"
        using getLine_deindent[OF l0, of e] Cons.prems(1) Cons by simp
      ultimately have "concat (map (\<lambda>ln. getLine state ln e 4 False) [b..<b + length (l # ls)]) =
          (drop 4 l @ [LF]) @ joinLF (map (drop 4) ls)"
        by (simp only: up)
      then show ?thesis
        using Cons by simp
    qed
  qed
  from this[OF refl assms(2) assms(1)] assms(1) show ?thesis
    by (cases ls) (simp_all add: getLines_def)
qed

lemma parseSnippetBlock_True:
  assumes "parseSnippetBlock state startLine endLine False = Some (True, state')"
  obtains bg mid en where
    "collectMetaLines state startLine endLine = bg # mid @ [en]" "isBegin bg" "isEnd en"
    "state' = state\<lparr>line := index en + 1,
             stLevel := stLevel state + int (length (filter isLang mid)),
             tokens := tokens state @
               openToken (stLevel state) bg #
               langTokens state (stLevel state + 1) (sort_key index (filter isLang mid)) (index en) @
               [closeToken (stLevel state + int (length (filter isLang mid)))]\<rparr>"
proof -
  let ?ml = "collectMetaLines state startLine endLine"
  from assms have v: "valid (validateMetaLines ?ml)"
    and c: "commitSnippet state ?ml = Some (True, state')"
    by (auto simp: parseSnippetBlock_def Let_def split: if_splits)
  from v obtain bg mid en where ml: "?ml = bg # mid @ [en]"
    by (rule valid_shape)
  from c have be: "isBegin bg" "isEnd en"
    by (auto simp: ml commitSnippet_shape split: if_splits)
  from c commitSnippet_emits[OF be, of state mid] ml
  have "state' = state\<lparr>line := index en + 1,
             stLevel := stLevel state + int (length (filter isLang mid)),
             tokens := tokens state @
               openToken (stLevel state) bg #
               langTokens state (stLevel state + 1) (sort_key index (filter isLang mid)) (index en) @
               [closeToken (stLevel state + int (length (filter isLang mid)))]\<rparr>"
    by simp
  with ml be that show thesis by blast
qed

lemma skipIndent_full: "skipIndent n bs ts n off xs = (n, xs)"
  by (cases xs) simp_all

lemma dropColumns_Nil [simp]: "dropColumns n [] = []"
  by (cases n) simp_all

lemma skipIndent_dropColumns:
  assumes "li \<le> 4" and "ts \<le> int off + int (length (takeWhile isSpace l))"
    and "r = [] \<or> \<not> isSpace (hd r)"
  shows "\<exists>li'. li' \<le> 4 \<and>
     skipIndent 4 (Some 0) (Some ts) li off (l @ r) = (li', dropColumns (4 - li) l @ r)"
  using assms
proof (induction l arbitrary: li off)
  case Nil
  show ?case
  proof (cases r)
    case Nil
    with Nil.prems show ?thesis by simp
  next
    case (Cons ch cs)
    with Nil.prems have "\<not> isSpace ch" "\<not> int off < ts" by simp_all
    with Nil.prems Cons show ?thesis by simp
  qed
next
  case (Cons c cs)
  show ?case
  proof (cases "li = 4")
    case True
    then show ?thesis by (simp add: skipIndent_full)
  next
    case False
    with Cons.prems have li: "li < 4" by simp
    then obtain n where n: "4 - li = Suc n" "4 - Suc li = n" by (cases "4 - li") simp_all
    consider (sp) "c = CHR 0x20" | (tab) "c = CHR 0x09" | (other) "\<not> isSpace c"
      by (auto simp: isSpace_def)
    then show ?thesis
    proof cases
      case sp
      have "\<exists>li'. li' \<le> 4 \<and>
          skipIndent 4 (Some 0) (Some ts) (Suc li) (Suc off) (cs @ r) =
            (li', dropColumns (4 - Suc li) cs @ r)"
        using li Cons.prems sp by (intro Cons.IH) (simp_all add: isSpace_def)
      with sp li n show ?thesis by (simp add: isSpace_def)
    next
      case tab
      from li have "li + (4 - li mod 4) = 4" by simp
      with tab li n show ?thesis by (simp add: isSpace_def skipIndent_full)
    next
      case other
      with Cons.prems have "\<not> int off < ts" by simp
      moreover from other have "c \<noteq> CHR 0x20" "c \<noteq> CHR 0x09" by (auto simp: isSpace_def)
      ultimately show ?thesis using other li n by simp
    qed
  qed
qed

lemma getLine_dropColumns:
  assumes "lineAt state ln l" and "nth_opt (bsCount state) ln = Some 0"
  shows "getLine state ln e 4 False = dropColumns 4 l @ (if ln + 1 < e then [LF] else [])"
proof -
  from assms(1) obtain b where b: "nth_opt (bMarks state) ln = Some b"
    and em: "nth_opt (eMarks state) ln = Some (b + length l)"
    and s1: "slice (src state) (Some b) (Some (b + length l + 1)) = l @ [LF]"
    and s0: "slice (src state) (Some b) (Some (b + length l)) = l"
    and t: "nth_opt (tShift state) ln = Some (int (length (takeWhile isSpace l)))"
    by (rule lineAt_slices)
  let ?r = "if ln + 1 < e then [LF] else []"
  have sl: "slice (src state) (Some b) (Some (if ln + 1 < e then b + length l + 1 else b + length l)) =
      l @ ?r"
    using s1 s0 by simp
  have "?r = [] \<or> \<not> isSpace (hd ?r)" by (simp add: isSpace_def LF_def)
  from skipIndent_dropColumns[OF _ _ this, of 0 "int (length (takeWhile isSpace l))" 0 l]
  obtain li' where li': "li' \<le> 4"
    and sk: "skipIndent 4 (Some 0) (Some (int (length (takeWhile isSpace l)))) 0 0 (l @ ?r) =
      (li', dropColumns 4 l @ ?r)"
    by auto
  show ?thesis
    unfolding getLine_def Let_def
    by (simp only: em b assms(2) t option.case if_False simp_thms sl sk prod.case)
      (use li' in simp)
qed

lemma getLines_dropColumns:
  assumes "ls \<noteq> []"
    and "\<forall>i<length ls. lineAt state (b + i) (ls ! i) \<and> nth_opt (bsCount state) (b + i) = Some 0"
  shows "getLines state b (b + length ls) 4 False = joinLF (map (dropColumns 4) ls)"
proof -
  have "e = b + length ls \<Longrightarrow>
     \<forall>i<length ls. lineAt state (b + i) (ls ! i) \<and> nth_opt (bsCount state) (b + i) = Some 0 \<Longrightarrow>
     ls \<noteq> [] \<Longrightarrow>
     concat (map (\<lambda>ln. getLine state ln e 4 False) [b..<b + length ls]) =
       joinLF (map (dropColumns 4) ls)"
    for e
  proof (induction ls arbitrary: b)
    case Nil
    then show ?case by simp
  next
    case (Cons l ls)
    from Cons.prems(2) have l0: "lineAt state b l" "nth_opt (bsCount state) b = Some 0"
      by force+
    have up: "concat (map (\<lambda>ln. getLine state ln e 4 False) [b..<b + length (l # ls)]) =
        getLine state b e 4 False @
        concat (map (\<lambda>ln. getLine state ln e 4 False) [Suc b..<Suc b + length ls])"
    proof -
      have "[b..<b + length (l # ls)] = b # [Suc b..<Suc b + length ls]"
        by (simp add: upt_conv_Cons del: upt_Suc)
      then show ?thesis by (simp only: list.map concat.simps)
    qed
    show ?case
    proof (cases ls)
      case Nil
      then show ?thesis
        using getLine_dropColumns[OF l0, of e] Cons.prems(1) by simp
    next
      case (Cons l' ls')
      have rest: "\<forall>i<length ls. lineAt state (Suc b + i) (ls ! i) \<and>
            nth_opt (bsCount state) (Suc b + i) = Some 0"
      proof (intro allI impI)
        fix i assume "i < length ls"
        then have "Suc i < length (l # ls)" by simp
        from Cons.prems(2)[rule_format, OF this] show "lineAt state (Suc b + i) (ls ! i) \<and>
            nth_opt (bsCount state) (Suc b + i) = Some 0" by simp
      qed
      have "concat (map (\<lambda>ln. getLine state ln e 4 False) [Suc b..<Suc b + length ls]) =
            joinLF (map (dropColumns 4) ls)"
        using Cons.prems(1) Cons by (intro Cons.IH rest) simp_all
      moreover have "getLine state b e 4 False = dropColumns 4 l @ [LF]"
        using getLine_dropColumns[OF l0, of e] Cons.prems(1) Cons by simp
      ultimately have "concat (map (\<lambda>ln. getLine state ln e 4 False) [b..<b + length (l # ls)]) =
          (dropColumns 4 l @ [LF]) @ joinLF (map (dropColumns 4) ls)"
        by (simp only: up)
      then show ?thesis
        using Cons by simp
    qed
  qed
  from this[OF refl assms(2) assms(1)] assms(1) show ?thesis
    by (cases ls) (simp_all add: getLines_def)
qed

lemma dropColumns_prefix:
  "\<exists>p. l = p @ dropColumns n l \<and> length p \<le> n \<and> list_all isSpace p"
proof (induction n l rule: dropColumns.induct)
  case (1 l)
  then show ?case by simp
next
  case (2 n)
  then show ?case by simp
next
  case (3 n c cs)
  consider (sp) "c = CHR 0x20" | (tab) "c = CHR 0x09" | (other) "c \<noteq> CHR 0x20" "c \<noteq> CHR 0x09"
    by blast
  then show ?case
  proof cases
    case sp
    with 3 obtain p where "cs = p @ dropColumns n cs" "length p \<le> n" "list_all isSpace p"
      by auto
    with sp have "c # cs = (c # p) @ dropColumns (Suc n) (c # cs) \<and> length (c # p) \<le> Suc n \<and>
        list_all isSpace (c # p)"
      by (simp add: isSpace_def)
    then show ?thesis by blast
  next
    case tab
    then have "c # cs = [c] @ dropColumns (Suc n) (c # cs) \<and> length [c] \<le> Suc n \<and>
        list_all isSpace [c]"
      by (simp add: isSpace_def)
    then show ?thesis by blast
  next
    case other
    then have "c # cs = [] @ dropColumns (Suc n) (c # cs) \<and> length ([]::string) \<le> Suc n \<and>
        list_all isSpace []"
      by simp
    then show ?thesis by blast
  qed
qed

lemma dropColumns_spaces:
  "r = [] \<or> hd r \<noteq> CHR 0x20 \<Longrightarrow>
   dropColumns n (replicate k (CHR 0x20) @ r) =
     (if n \<le> k then replicate (k - n) (CHR 0x20) @ r
      else if r \<noteq> [] \<and> hd r = CHR 0x09 then tl r else r)"
proof (induction k arbitrary: n)
  case 0
  then show ?case by (cases n; cases r) auto
next
  case (Suc k)
  show ?case
  proof (cases n)
    case 0
    then show ?thesis by simp
  next
    case (Suc m)
    with Suc.IH[OF Suc.prems, of m] show ?thesis by simp
  qed
qed

lemma content_spans:
  assumes "parseSnippetBlock state startLine endLine False = Some (True, state')"
  shows "\<exists>bg mid en.
         collectMetaLines state startLine endLine = bg # mid @ [en] \<and> isBegin bg \<and> isEnd en \<and>
         line state' = index en + 1 \<and>
         length (tokens state') = length (tokens state) + length (filter isLang mid) + 2 \<and>
         (\<forall>i<length (filter isLang mid).
            let langSort = sort_key index (filter isLang mid);
                langEnd = (if i + 1 = length langSort then index en
                           else index (langSort ! (i + 1)));
                tok = tokens state' ! (length (tokens state) + 1 + i)
            in type tok = ''stack_snippet_lang'' \<and>
               attrGet tok ''language'' = Some (language (langSort ! i)) \<and>
               tokMap tok = Some (index (langSort ! i), langEnd) \<and>
               content tok =
                 getLines state (index (langSort ! i) + 2) (langEnd - 1) 4 False)"
proof -
  from assms obtain bg mid en where
    ml: "collectMetaLines state startLine endLine = bg # mid @ [en]" and be: "isBegin bg" "isEnd en"
    and st: "state' = state\<lparr>line := index en + 1,
             stLevel := stLevel state + int (length (filter isLang mid)),
             tokens := tokens state @
               openToken (stLevel state) bg #
               langTokens state (stLevel state + 1) (sort_key index (filter isLang mid)) (index en) @
               [closeToken (stLevel state + int (length (filter isLang mid)))]\<rparr>"
    by (rule parseSnippetBlock_True)
  let ?langs = "sort_key index (filter isLang mid)"
  have nth: "tokens state' ! (length (tokens state) + 1 + i) =
      langToken state (stLevel state + 1 + int i) (?langs ! i)
        (if i + 1 = length ?langs then index en else index (?langs ! (i + 1)))"
    if "i < length (filter isLang mid)" for i
  proof -
    from that have i: "i < length ?langs" by simp
    have "tokens state' ! (length (tokens state) + 1 + i) =
        langTokens state (stLevel state + 1) ?langs (index en) ! i"
      using i by (simp add: st nth_append)
    then show ?thesis by (simp only: langTokens_nth[OF i])
  qed
  have body: "\<forall>i<length (filter isLang mid).
            let langSort = sort_key index (filter isLang mid);
                langEnd = (if i + 1 = length langSort then index en
                           else index (langSort ! (i + 1)));
                tok = tokens state' ! (length (tokens state) + 1 + i)
            in type tok = ''stack_snippet_lang'' \<and>
               attrGet tok ''language'' = Some (language (langSort ! i)) \<and>
               tokMap tok = Some (index (langSort ! i), langEnd) \<and>
               content tok =
                 getLines state (index (langSort ! i) + 2) (langEnd - 1) 4 False"
  proof (intro allI impI)
    fix i assume "i < length (filter isLang mid)"
    from nth[OF this] show "let langSort = sort_key index (filter isLang mid);
                langEnd = (if i + 1 = length langSort then index en
                           else index (langSort ! (i + 1)));
                tok = tokens state' ! (length (tokens state) + 1 + i)
            in type tok = ''stack_snippet_lang'' \<and>
               attrGet tok ''language'' = Some (language (langSort ! i)) \<and>
               tokMap tok = Some (index (langSort ! i), langEnd) \<and>
               content tok =
                 getLines state (index (langSort ! i) + 2) (langEnd - 1) 4 False"
      by (simp add: Let_def langToken_def attrGet_def)
  qed
  have len: "length (tokens state') = length (tokens state) + length (filter isLang mid) + 2"
    and ln: "line state' = index en + 1"
    by (simp_all add: st)
  from ml be ln len body
  show ?thesis
    by blast
qed

section \<open>The serializer\<close>

lemma flushClose_open [simp]: "closed (flushClose st) = False"
  by (simp add: flushClose_def)

lemma write_out_open:
  "\<not> closed st \<Longrightarrow> write_out c st = st\<lparr>out := out st @ c\<rparr>"
  by (simp add: write_out_def flushClose_def)

lemma write_out_fields [simp]:
  "closed (write_out c st) = False" "out (write_out c st) = out (flushClose st) @ c"
  by (simp_all add: write_out_def Let_def)

lemma write_out_eq:
  "write_out c st = (flushClose st)\<lparr>out := out (flushClose st) @ c\<rparr>"
  by (simp add: write_out_def Let_def)

lemma foldl_write_lines:
  "\<not> closed st \<Longrightarrow>
   foldl (\<lambda>s l. write_out (l @ [LF]) s) st ls =
     st\<lparr>out := out st @ concat (map (\<lambda>l. l @ [LF]) ls)\<rparr>"
proof (induction ls arbitrary: st)
  case Nil
  then show ?case by simp
next
  case (Cons l ls)
  have "foldl (\<lambda>s l. write_out (l @ [LF]) s) st (l # ls) =
        foldl (\<lambda>s l. write_out (l @ [LF]) s) (st\<lparr>out := out st @ l @ [LF]\<rparr>) ls"
    using Cons.prems by (simp add: write_out_open)
  also have "\<dots> = (st\<lparr>out := out st @ l @ [LF]\<rparr>)\<lparr>out := out (st\<lparr>out := out st @ l @ [LF]\<rparr>) @
       concat (map (\<lambda>l. l @ [LF]) ls)\<rparr>"
    using Cons.prems by (intro Cons.IH) simp
  finally show ?case by simp
qed

lemma writeLangNode_open:
  assumes "\<not> closed st"
  shows "writeLangNode st n = st\<lparr>out := out st @ langBlock n\<rparr>"
proof -
  let ?hd = "''<!-- language: lang-'' @ assertAttrValue (langAttrs n) ''language'' @ '' -->'' @
     [LF, LF]"
  let ?ls = "map (\<lambda>l. if l \<noteq> [] then ''    '' @ l else l) (splitLF (textContent n))"
  let ?s1 = "st\<lparr>out := out st @ ?hd\<rparr>"
  let ?s2 = "?s1\<lparr>out := out ?s1 @ concat (map (\<lambda>l. l @ [LF]) ?ls)\<rparr>"
  have s1: "write_out ?hd st = ?s1"
    using assms by (rule write_out_open)
  have c1: "\<not> closed ?s1" using assms by simp
  have s2: "foldl (\<lambda>s l. write_out (l @ [LF]) s) ?s1 ?ls = ?s2"
    using c1 by (rule foldl_write_lines)
  have c2: "\<not> closed ?s2" using assms by simp
  have s3: "write_out [LF] ?s2 = ?s2\<lparr>out := out ?s2 @ [LF]\<rparr>"
    using c2 by (rule write_out_open)
  have m: "((\<lambda>l. l @ [LF]) \<circ> (\<lambda>l. if l \<noteq> [] then ''    '' @ l else l)) =
        (\<lambda>l. (if l = [] then [] else ''    '' @ l) @ [LF])"
    by (auto simp: fun_eq_iff)
  have "writeLangNode st n = ?s2\<lparr>out := out ?s2 @ [LF]\<rparr>"
    unfolding writeLangNode_def Let_def by (simp only: s1 s2 s3)
  also have "\<dots> = st\<lparr>out := out st @ langBlock n\<rparr>"
    by (simp add: langBlock_def m)
  finally show ?thesis .
qed

lemma foldl_writeLangNode:
  "\<not> closed st \<Longrightarrow>
   foldl writeLangNode st ns = st\<lparr>out := out st @ concat (map langBlock ns)\<rparr>"
proof (induction ns arbitrary: st)
  case Nil
  then show ?case by simp
next
  case (Cons n ns)
  have "foldl writeLangNode st (n # ns) = foldl writeLangNode (st\<lparr>out := out st @ langBlock n\<rparr>) ns"
    using Cons.prems by (simp add: writeLangNode_open)
  also have "\<dots> = (st\<lparr>out := out st @ langBlock n\<rparr>)\<lparr>out := out (st\<lparr>out := out st @ langBlock n\<rparr>) @
       concat (map langBlock ns)\<rparr>"
    using Cons.prems by (intro Cons.IH) simp
  finally show ?case by simp
qed

lemma stack_snippet_out:
  "stack_snippet state node =
     (flushClose state)\<lparr>out := out (flushClose state) @
        ''<!-- begin snippet: js hide: '' @ assertAttrValue (nodeAttrs node) ''hide'' @
        '' console: '' @ assertAttrValue (nodeAttrs node) ''console'' @
        '' babel: '' @ assertAttrValue (nodeAttrs node) ''babel'' @
        '' babelPresetReact: '' @ assertAttrValue (nodeAttrs node) ''babelPresetReact'' @
        '' babelPresetTS: '' @ assertAttrValue (nodeAttrs node) ''babelPresetTS'' @ '' -->'' @
        [LF, LF] @
        concat (map langBlock (children node)) @
        ''<!-- end snippet -->'',
      closed := True\<rparr>"
proof -
  let ?b = "''<!-- begin snippet: js hide: '' @ g_hide (getSnippetMetadata node) @
                      '' console: '' @ g_console (getSnippetMetadata node) @
                      '' babel: '' @ g_babel (getSnippetMetadata node) @
                      '' babelPresetReact: '' @ g_babelPresetReact (getSnippetMetadata node) @
                      '' babelPresetTS: '' @ g_babelPresetTS (getSnippetMetadata node) @ '' -->''"
  let ?s0 = "flushClose state"
  let ?s1 = "?s0\<lparr>out := out ?s0 @ ?b\<rparr>"
  let ?s2 = "?s1\<lparr>out := out ?s1 @ [LF, LF]\<rparr>"
  let ?s3 = "?s2\<lparr>out := out ?s2 @ concat (map langBlock (children node))\<rparr>"
  let ?s4 = "?s3\<lparr>out := out ?s3 @ ''<!-- end snippet -->''\<rparr>"
  have s1: "write_out ?b state = ?s1" by (rule write_out_eq)
  have c1: "\<not> closed ?s1" by simp
  have s2: "write_out [LF, LF] ?s1 = ?s2" using c1 by (rule write_out_open)
  have c2: "\<not> closed ?s2" by simp
  have s3: "foldl writeLangNode ?s2 (children node) = ?s3" using c2 by (rule foldl_writeLangNode)
  have c3: "\<not> closed ?s3" by simp
  have s4: "write_out ''<!-- end snippet -->'' ?s3 = ?s4" using c3 by (rule write_out_open)
  have "stack_snippet state node = closeBlock ?s4"
    unfolding stack_snippet_def Let_def by (simp only: s1 s2 s3 s4)
  then show ?thesis
    by (simp add: closeBlock_def getSnippetMetadata_def)
qed

text \<open>
  C7. For every snippet node the serializer writes, after the host has flushed a block
  closed before it, the begin marker with the five fields in the order \<open>hide\<close>,
  \<open>console\<close>, \<open>babel\<close>, \<open>babelPresetReact\<close>, \<open>babelPresetTS\<close>, each with the current
  value of the attribute, or \<open>null\<close> when the attribute is absent; an empty line; for each
  language node in the order of the children the marker of its language, an empty line,
  each line of its text with exactly four spaces before it when the line is not empty and
  as it is when it is empty, and an empty line; and the end marker. It leaves the block
  closed.
\<close>

theorem stack_snippet_output:
  "stack_snippet state node =
     (flushClose state)\<lparr>out := out (flushClose state) @
        ''<!-- begin snippet: js hide: '' @ assertAttrValue (nodeAttrs node) ''hide'' @
        '' console: '' @ assertAttrValue (nodeAttrs node) ''console'' @
        '' babel: '' @ assertAttrValue (nodeAttrs node) ''babel'' @
        '' babelPresetReact: '' @ assertAttrValue (nodeAttrs node) ''babelPresetReact'' @
        '' babelPresetTS: '' @ assertAttrValue (nodeAttrs node) ''babelPresetTS'' @ '' -->'' @
        [LF, LF] @
        concat (map (\<lambda>langNode.
            ''<!-- language: lang-'' @ assertAttrValue (langAttrs langNode) ''language'' @
            '' -->'' @ [LF, LF] @
            concat (map (\<lambda>l. (if l = [] then [] else ''    '' @ l) @ [LF])
                      (splitLF (textContent langNode))) @
            [LF]) (children node)) @
        ''<!-- end snippet -->'',
      closed := True\<rparr> \<and>
   (map_of as name = Some (Some v) \<longrightarrow> assertAttrValue as name = v) \<and>
   (map_of as name = None \<or> map_of as name = Some None \<longrightarrow>
      assertAttrValue as name = ''null'')"
proof -
  have "langBlock = (\<lambda>langNode.
            ''<!-- language: lang-'' @ assertAttrValue (langAttrs langNode) ''language'' @
            '' -->'' @ [LF, LF] @
            concat (map (\<lambda>l. (if l = [] then [] else ''    '' @ l) @ [LF])
                      (splitLF (textContent langNode))) @
            [LF])"
    by (simp add: fun_eq_iff langBlock_def)
  then show ?thesis
    using stack_snippet_out[of state node] by (auto simp: assertAttrValue_def)
qed

theorem stack_snippet_output_witness:
  "out (stack_snippet \<lparr>out = [], closed = False\<rparr> exampleNode) =
     joinLF
       [''<!-- begin snippet: js hide: false console: true babel: false babelPresetReact: false babelPresetTS: null -->'',
        [],
        ''<!-- language: lang-js -->'',
        [],
        ''    if (a) {'',
        [],
        ''      b();'',
        ''    }'',
        [],
        ''<!-- language: lang-css -->'',
        [],
        [],
        [],
        ''<!-- end snippet -->''] \<and>
   assertAttrValue (nodeAttrs exampleNode) ''babelPresetTS'' = ''null''"
proof -
  have n: "map_of (nodeAttrs exampleNode) ''babelPresetTS'' = None \<or>
      map_of (nodeAttrs exampleNode) ''babelPresetTS'' = Some None"
    by (simp add: exampleNode_def)
  from stack_snippet_output[of _ _ "nodeAttrs exampleNode" "''babelPresetTS''"] n
  have a: "assertAttrValue (nodeAttrs exampleNode) ''babelPresetTS'' = ''null''"
    by blast
  have "out (stack_snippet \<lparr>out = [], closed = False\<rparr> exampleNode) =
     joinLF
       [''<!-- begin snippet: js hide: false console: true babel: false babelPresetReact: false babelPresetTS: null -->'',
        [],
        ''<!-- language: lang-js -->'',
        [],
        ''    if (a) {'',
        [],
        ''      b();'',
        ''    }'',
        [],
        ''<!-- language: lang-css -->'',
        [],
        [],
        [],
        ''<!-- end snippet -->'']"
    unfolding stack_snippet_output[THEN conjunct1] by code_simp
  with a show ?thesis by (rule conjI[rotated])
qed

section \<open>The escape-retagging rule\<close>

lemma retagFirst_none:
  "\<forall>t\<in>set ts. info t \<noteq> ''escape'' \<Longrightarrow> retagFirst ts = ts"
  by (induction ts) auto

lemma retagFirst_split:
  "\<forall>t\<in>set a. info t \<noteq> ''escape'' \<Longrightarrow> info t = ''escape'' \<Longrightarrow>
   retagFirst (a @ t # b) = a @ t\<lparr>type := ''escape''\<rparr> # b"
  by (induction a) auto

lemma retagLast_none:
  "\<forall>t\<in>set ts. info t \<noteq> ''escape'' \<Longrightarrow> retagLast ts = ts"
  by (simp add: retagLast_def retagFirst_none)

lemma retagLast_split:
  assumes "info t = ''escape''" and "\<forall>u\<in>set b. info u \<noteq> ''escape''"
  shows "retagLast (a @ t # b) = a @ t\<lparr>type := ''escape''\<rparr> # b"
proof -
  have "retagFirst (rev b @ t # rev a) = rev b @ t\<lparr>type := ''escape''\<rparr> # rev a"
    using assms by (intro retagFirst_split) auto
  then show ?thesis by (simp add: retagLast_def)
qed

text \<open>
  C9. If no function named \<open>escape\<close> is among the rules that the inline ruler returns at
  wrap time, the wrapper returns false and leaves the state as it is, on every call.
  Otherwise it calls the first such function, returns what it returns, and its state is
  the state that the function leaves, but for the tokens: when the call is silent or the
  function returns false the tokens are those that the function leaves; when the function
  matched and left no token with the info \<open>escape\<close>, too; and when it matched, the last
  token with the info \<open>escape\<close> has the type \<open>escape\<close> and every other token is as the
  function left it.
\<close>

theorem buildPreserveEscapeFn_delegates:
  "(filter (\<lambda>r. fst r = ''escape'') (getRules rules) = [] \<longrightarrow>
      buildPreserveEscapeFn rules state silent = (False, state)) \<and>
   (filter (\<lambda>r. fst r = ''escape'') (getRules rules) = (name, escapeFn) # others \<and>
    escapeFn state silent = (escRet, state') \<longrightarrow>
      (\<exists>toks. buildPreserveEscapeFn rules state silent = (escRet, state'\<lparr>inlineTokens := toks\<rparr>) \<and>
         (silent \<or> \<not> escRet \<longrightarrow> toks = inlineTokens state') \<and>
         (\<not> silent \<and> escRet \<and> (\<forall>t\<in>set (inlineTokens state'). info t \<noteq> ''escape'') \<longrightarrow>
            toks = inlineTokens state') \<and>
         (\<forall>a t b. \<not> silent \<and> escRet \<and> inlineTokens state' = a @ t # b \<and>
            info t = ''escape'' \<and> (\<forall>u\<in>set b. info u \<noteq> ''escape'') \<longrightarrow>
            toks = a @ t\<lparr>type := ''escape''\<rparr> # b)))"
proof (intro conjI impI)
  assume "filter (\<lambda>r. fst r = ''escape'') (getRules rules) = []"
  then show "buildPreserveEscapeFn rules state silent = (False, state)"
    by (simp add: buildPreserveEscapeFn_def noop_def)
next
  assume a: "filter (\<lambda>r. fst r = ''escape'') (getRules rules) = (name, escapeFn) # others \<and>
    escapeFn state silent = (escRet, state')"
  let ?toks = "if silent \<or> \<not> escRet then inlineTokens state' else retagLast (inlineTokens state')"
  have "buildPreserveEscapeFn rules state silent = (escRet, state'\<lparr>inlineTokens := ?toks\<rparr>)"
    using a by (auto simp: buildPreserveEscapeFn_def preserveEscapeFn_def)
  moreover have "silent \<or> \<not> escRet \<longrightarrow> ?toks = inlineTokens state'" by simp
  moreover have "\<not> silent \<and> escRet \<and> (\<forall>t\<in>set (inlineTokens state'). info t \<noteq> ''escape'') \<longrightarrow>
            ?toks = inlineTokens state'"
    by (simp add: retagLast_none)
  moreover have "\<forall>a t b. \<not> silent \<and> escRet \<and> inlineTokens state' = a @ t # b \<and>
            info t = ''escape'' \<and> (\<forall>u\<in>set b. info u \<noteq> ''escape'') \<longrightarrow>
            ?toks = a @ t\<lparr>type := ''escape''\<rparr> # b"
    by (auto simp: retagLast_split)
  ultimately show "\<exists>toks. buildPreserveEscapeFn rules state silent = (escRet, state'\<lparr>inlineTokens := toks\<rparr>) \<and>
         (silent \<or> \<not> escRet \<longrightarrow> toks = inlineTokens state') \<and>
         (\<not> silent \<and> escRet \<and> (\<forall>t\<in>set (inlineTokens state'). info t \<noteq> ''escape'') \<longrightarrow>
            toks = inlineTokens state') \<and>
         (\<forall>a t b. \<not> silent \<and> escRet \<and> inlineTokens state' = a @ t # b \<and>
            info t = ''escape'' \<and> (\<forall>u\<in>set b. info u \<noteq> ''escape'') \<longrightarrow>
            toks = a @ t\<lparr>type := ''escape''\<rparr> # b)"
    by blast
qed

theorem buildPreserveEscapeFn_delegates_witness:
  "buildPreserveEscapeFn [] exampleInline False = (False, exampleInline) \<and>
   buildPreserveEscapeFn exampleRules exampleInline False =
     (True,
      exampleInline
        \<lparr>pos := 2,
         inlineTokens :=
           [(newToken ''text_special'' [] 0)\<lparr>content := ''_'', info := ''escape''\<rparr>,
            (newToken ''text'' [] 0)\<lparr>content := ''b''\<rparr>,
            (newToken ''text_special'' [] 0)
              \<lparr>content := ''*'', info := ''escape'', type := ''escape''\<rparr>]\<rparr>)"
proof -
  let ?t1 = "(newToken ''text_special'' [] 0)\<lparr>content := ''_'', info := ''escape''\<rparr>"
  let ?t2 = "(newToken ''text'' [] 0)\<lparr>content := ''b''\<rparr>"
  let ?t3 = "(newToken ''text_special'' [] 0)\<lparr>content := ''*'', info := ''escape''\<rparr>"
  let ?st' = "exampleInline\<lparr>inlineTokens := [?t1, ?t2, ?t3], pos := 2\<rparr>"
  have 1: "buildPreserveEscapeFn [] exampleInline False = (False, exampleInline)"
    using buildPreserveEscapeFn_delegates[of "[]" exampleInline False]
    by (simp add: getRules_def)
  have f: "filter (\<lambda>r. fst r = ''escape'') (getRules exampleRules) =
      (''escape'', exampleEscape) # []"
    by (simp add: getRules_def exampleRules_def)
  have e: "exampleEscape exampleInline False = (True, ?st')"
    by (simp add: exampleEscape_def exampleInline_def nth_opt_def)
  from buildPreserveEscapeFn_delegates[of exampleRules exampleInline False
      "''escape''" exampleEscape "[]" True ?st'] f e
  obtain toks where b: "buildPreserveEscapeFn exampleRules exampleInline False =
      (True, ?st'\<lparr>inlineTokens := toks\<rparr>)"
    and r: "\<forall>a t b. \<not> False \<and> True \<and> inlineTokens ?st' = a @ t # b \<and>
            info t = ''escape'' \<and> (\<forall>u\<in>set b. info u \<noteq> ''escape'') \<longrightarrow>
            toks = a @ t\<lparr>type := ''escape''\<rparr> # b"
    by blast
  from r[rule_format, of "[?t1, ?t2]" ?t3 "[]"] have "toks = [?t1, ?t2, ?t3\<lparr>type := ''escape''\<rparr>]"
    by (simp add: newToken_def)
  with b have 2: "buildPreserveEscapeFn exampleRules exampleInline False =
     (True, exampleInline\<lparr>pos := 2,
         inlineTokens := [?t1, ?t2, ?t3\<lparr>type := ''escape''\<rparr>]\<rparr>)"
    by simp
  from 1 2 show ?thesis by (rule conjI)
qed

section \<open>The round trip: serialize, then parse\<close>

subsection \<open>Lines and line feeds\<close>

lemma splitLF_not_Nil [simp]: "splitLF s \<noteq> []"
  by (induction s) (auto split: list.splits)



lemma joinLF_Nil_Cons: "ls \<noteq> [] \<Longrightarrow> joinLF (l # ls) = l @ LF # joinLF ls"
  by (cases ls) simp_all


lemma splitLF_noLF_id: "LF \<notin> set l \<Longrightarrow> splitLF l = [l]"
  by (induction l) auto

lemma splitLF_append_LF: "LF \<notin> set l \<Longrightarrow> splitLF (l @ LF # t) = l # splitLF t"
  by (induction l) auto

lemma splitLF_joinLF:
  "ls \<noteq> [] \<Longrightarrow> \<forall>l\<in>set ls. LF \<notin> set l \<Longrightarrow> splitLF (joinLF ls) = ls"
proof (induction ls)
  case Nil
  then show ?case by simp
next
  case (Cons l ls)
  show ?case
  proof (cases ls)
    case Nil
    then show ?thesis using Cons.prems by (simp add: splitLF_noLF_id)
  next
    case (Cons l' ls')
    then have "splitLF (joinLF ls) = ls" using Cons.IH Cons.prems by simp
    then show ?thesis
      using Cons Cons.prems by (simp add: joinLF_Nil_Cons splitLF_append_LF)
  qed
qed

lemma length_lineMarks [simp]: "length (lineMarks k ls) = length ls"
  by (induction ls arbitrary: k) simp_all

lemma lineMarks_nth:
  "i < length ls \<Longrightarrow> length pre = k \<Longrightarrow>
   (\<exists>b. lineMarks k ls ! i = (b, b + length (ls ! i)) \<and>
        drop b (pre @ joinLF ls) =
          ls ! i @ (if i + 1 < length ls then LF # joinLF (drop (i + 1) ls) else []))"
proof (induction ls arbitrary: i k pre)
  case Nil
  then show ?case by simp
next
  case (Cons l ls)
  show ?case
  proof (cases i)
    case 0
    show ?thesis
    proof (cases ls)
      case Nil
      then show ?thesis using 0 Cons.prems by simp
    next
      case (Cons l' ls')
      then show ?thesis using 0 Cons.prems by simp
    qed
  next
    case (Suc j)
    with Cons.prems have j: "j < length ls" by simp
    then have ne: "ls \<noteq> []" by auto
    have "length (pre @ l @ [LF]) = k + length l + 1" using Cons.prems by simp
    from Cons.IH[OF j this] obtain b where
      b: "lineMarks (k + length l + 1) ls ! j = (b, b + length (ls ! j))"
      and d: "drop b ((pre @ l @ [LF]) @ joinLF ls) =
          ls ! j @ (if j + 1 < length ls then LF # joinLF (drop (j + 1) ls) else [])"
      by blast
    have "pre @ joinLF (l # ls) = (pre @ l @ [LF]) @ joinLF ls"
      using ne by (simp add: joinLF_Nil_Cons)
    with b d Suc show ?thesis by simp
  qed
qed

subsection \<open>The block state of a document given by its lines\<close>

lemma hostLines_joinLF:
  assumes "documentLines ls"
  shows "hostLines (joinLF ls) = ls"
  using assms by (auto simp: documentLines_def hostLines_def splitLF_joinLF list_all_iff)

lemma nth_opt_map_snoc:
  "i < length xs \<Longrightarrow> nth_opt (map f xs @ [y]) i = Some (f (xs ! i))"
  by (simp add: nth_opt_def nth_append)


lemma state_line:
  assumes "documentLines ls" and "i < length ls"
  obtains b where
    "nth_opt (bMarks (newStateBlock (joinLF ls))) i = Some b"
    "nth_opt (eMarks (newStateBlock (joinLF ls))) i = Some (b + length (ls ! i))"
    "drop b (joinLF ls) =
       ls ! i @ (if i + 1 < length ls then LF # joinLF (drop (i + 1) ls) else [])"
proof -
  from lineMarks_nth[OF assms(2), of "[]" 0] obtain b where
    m: "lineMarks 0 ls ! i = (b, b + length (ls ! i))"
    and d: "drop b (joinLF ls) =
          ls ! i @ (if i + 1 < length ls then LF # joinLF (drop (i + 1) ls) else [])"
    by auto
  have "nth_opt (bMarks (newStateBlock (joinLF ls))) i = Some b"
    "nth_opt (eMarks (newStateBlock (joinLF ls))) i = Some (b + length (ls ! i))"
    using assms(2) m
    by (simp_all add: newStateBlock_def Let_def hostLines_joinLF[OF assms(1)] nth_opt_map_snoc)
  with d that show thesis by blast
qed

lemma state_fields:
  assumes "documentLines ls"
  shows "src (newStateBlock (joinLF ls)) = joinLF ls"
    "blkIndent (newStateBlock (joinLF ls)) = 0"
    "tokens (newStateBlock (joinLF ls)) = []"
    "stLevel (newStateBlock (joinLF ls)) = 0"
    "lineMax (newStateBlock (joinLF ls)) = length ls"
    "i < length ls \<Longrightarrow> nth_opt (tShift (newStateBlock (joinLF ls))) i =
        Some (int (length (takeWhile isSpace (ls ! i))))"
    "i < length ls \<Longrightarrow> nth_opt (sCount (newStateBlock (joinLF ls))) i =
        Some (int (expandIndent 0 (ls ! i)))"
  by (simp_all add: newStateBlock_def Let_def hostLines_joinLF[OF assms] nth_opt_map_snoc)




lemma state_lineAt:
  assumes "documentLines ls" and "i + 1 < length ls"
  shows "lineAt (newStateBlock (joinLF ls)) i (ls ! i)"
proof -
  from assms have i: "i < length ls" by simp
  from state_line[OF assms(1) i] obtain b where
    b: "nth_opt (bMarks (newStateBlock (joinLF ls))) i = Some b"
    and e: "nth_opt (eMarks (newStateBlock (joinLF ls))) i = Some (b + length (ls ! i))"
    and d: "drop b (joinLF ls) =
       ls ! i @ (if i + 1 < length ls then LF # joinLF (drop (i + 1) ls) else [])"
    by blast
  show ?thesis
    using assms(2) by (simp add: lineAt_def b e d slice_def state_fields[OF assms(1)] i)
qed






subsection \<open>The serialized text, by lines\<close>




subsection \<open>The meta-lines of the serialized text\<close>

lemma metaOf_Nil [simp]: "metaOf k [] = None"
  by (simp add: metaOf_def startsWithLt_def)

lemma metaOf_padLine [simp]: "metaOf k (padLine l) = None"
  by (simp add: metaOf_def startsWithLt_def padLine_def)

lemma metaOf_end [simp]: "metaOf k ''<!-- end snippet -->'' = Some (End k)"
  by (simp add: metaOf_def startsWithLt_def validSnippetRegex_def mapMetaLine_def
      line_terminator_def)







lemma metaLinesFrom_padded [simp]: "metaLinesFrom k (map padLine ls) = []"
  by (induction ls arbitrary: k) simp_all




subsection \<open>The serialized text as a document\<close>





subsection \<open>Validation and sorting of the meta-lines of the serialized text\<close>









lemma filter_isLang_langMetas [simp]: "filter isLang (langMetas k kids) = langMetas k kids"
  by (induction kids arbitrary: k) simp_all

lemma length_langMetas [simp]: "length (langMetas k kids) = length kids"
  by (induction kids arbitrary: k) simp_all

subsection \<open>The contents of the language tokens of the serialized text\<close>

lemma drop4_padLine [simp]: "drop 4 (padLine l) = l"
  by (simp add: padLine_def)


lemma withoutTrailingNewline_id:
  "withoutTrailingNewline s = s \<longleftrightarrow> s = [] \<or> last s \<noteq> LF"
proof (cases "s = []")
  case True
  then show ?thesis by (simp add: withoutTrailingNewline_def)
next
  case False
  then have "butlast s \<noteq> s" by (metis append_butlast_last_id append_self_conv list.distinct(1))
  with False show ?thesis by (auto simp: withoutTrailingNewline_def)
qed


subsection \<open>The node of a token stream\<close>




subsection \<open>Serializing and parsing again\<close>


subsection \<open>The node of a parsed envelope\<close>

lemma set_map_filter: "set (List.map_filter f xs) = {y. \<exists>x\<in>set xs. f x = Some y}"
  by (induction xs) (auto split: option.splits)





lemma languageOf_kidNode [simp]: "languageOf (kidNode kid) = Some (fst kid)"
  by (simp add: languageOf_def kidNode_def)

lemma languageOf_defaultLangNode [simp]: "languageOf defaultLangNode = Some []"
  by (simp add: languageOf_def defaultLangNode_def)





section \<open>The content of the language tokens, line by line\<close>

lemma mapMetaLine_index: "mapMetaLine rc = Some m \<Longrightarrow> index m = rawIndex rc"
  by (auto simp: mapMetaLine_def Let_def split: if_splits option.splits)

lemma rawMetaLine_index: "rawMetaLine st i = Some rc \<Longrightarrow> rawIndex rc = i"
  by (auto simp: rawMetaLine_def Let_def split: if_splits)

lemma collectMetaLines_index:
  assumes "m \<in> set (collectMetaLines st a b)"
  shows "a \<le> index m \<and> index m < b"
proof -
  from assms obtain rc where rc: "rc \<in> set (collectRawMetaLines st a b)" "mapMetaLine rc = Some m"
    by (auto simp: collectMetaLines_def set_map_filter)
  from rc(1) obtain i where "i \<in> set [a..<b]" "rawMetaLine st i = Some rc"
    by (auto simp: collectRawMetaLines_def set_map_filter)
  with rc(2) show ?thesis
    by (auto dest!: mapMetaLine_index rawMetaLine_index)
qed

lemma getLines_lineText:
  assumes "\<forall>ln<e. lineAt state ln (lineText ln) \<and> nth_opt (bsCount state) ln = Some 0"
  shows "getLines state b e 4 False = joinLF (map (dropColumns 4 \<circ> lineText) [b..<e])"
proof (cases "b < e")
  case True
  let ?ls = "map lineText [b..<e]"
  have ne: "?ls \<noteq> []" using True by simp
  have len: "b + length ?ls = e" using True by simp
  have "\<forall>i<length ?ls. lineAt state (b + i) (?ls ! i) \<and> nth_opt (bsCount state) (b + i) = Some 0"
    using assms by simp
  from getLines_dropColumns[OF ne this] show ?thesis
    by (simp only: len map_map)
next
  case False
  then show ?thesis by (simp add: getLines_def)
qed

lemma content_lines:
  assumes p: "parseSnippetBlock state startLine endLine False = Some (True, state')"
    and lines: "\<forall>ln. ln + 1 < endLine \<longrightarrow>
        lineAt state ln (lineText ln) \<and> nth_opt (bsCount state) ln = Some 0"
  shows "\<exists>bg mid en.
         collectMetaLines state startLine endLine = bg # mid @ [en] \<and>
         (\<forall>i<length (filter isLang mid).
            let langSort = sort_key index (filter isLang mid);
                langEnd = (if i + 1 = length langSort then index en
                           else index (langSort ! (i + 1)));
                tok = tokens state' ! (length (tokens state) + 1 + i)
            in content tok =
                 joinLF (map (dropColumns 4 \<circ> lineText)
                   [index (langSort ! i) + 2..<langEnd - 1]))"
proof -
  from content_spans[OF p] obtain bg mid en where
    ml: "collectMetaLines state startLine endLine = bg # mid @ [en]"
    and c: "\<forall>i<length (filter isLang mid).
            let langSort = sort_key index (filter isLang mid);
                langEnd = (if i + 1 = length langSort then index en
                           else index (langSort ! (i + 1)));
                tok = tokens state' ! (length (tokens state) + 1 + i)
            in type tok = ''stack_snippet_lang'' \<and>
               attrGet tok ''language'' = Some (language (langSort ! i)) \<and>
               tokMap tok = Some (index (langSort ! i), langEnd) \<and>
               content tok =
                 getLines state (index (langSort ! i) + 2) (langEnd - 1) 4 False"
    by blast
  let ?langs = "sort_key index (filter isLang mid)"
  have "\<forall>i<length (filter isLang mid).
            let langSort = sort_key index (filter isLang mid);
                langEnd = (if i + 1 = length langSort then index en
                           else index (langSort ! (i + 1)));
                tok = tokens state' ! (length (tokens state) + 1 + i)
            in content tok =
                 joinLF (map (dropColumns 4 \<circ> lineText)
                   [index (langSort ! i) + 2..<langEnd - 1])"
  proof (intro allI impI)
    fix i assume i: "i < length (filter isLang mid)"
    let ?langEnd = "if i + 1 = length ?langs then index en else index (?langs ! (i + 1))"
    have "?langEnd < endLine"
    proof (cases "i + 1 = length ?langs")
      case True
      have "en \<in> set (collectMetaLines state startLine endLine)" by (simp add: ml)
      from collectMetaLines_index[OF this] True show ?thesis by simp
    next
      case False
      with i have "i + 1 < length ?langs" by simp
      then have "?langs ! (i + 1) \<in> set ?langs" by (rule nth_mem)
      then have "?langs ! (i + 1) \<in> set (collectMetaLines state startLine endLine)"
        by (simp add: ml)
      from collectMetaLines_index[OF this] False show ?thesis by simp
    qed
    then have "\<forall>ln<?langEnd - 1. lineAt state ln (lineText ln) \<and>
        nth_opt (bsCount state) ln = Some 0"
      using lines by auto
    from getLines_lineText[OF this]
    have g: "getLines state (index (?langs ! i) + 2) (?langEnd - 1) 4 False =
        joinLF (map (dropColumns 4 \<circ> lineText) [index (?langs ! i) + 2..<?langEnd - 1])" .
    from c[rule_format, OF i] have "content (tokens state' ! (length (tokens state) + 1 + i)) =
        getLines state (index (?langs ! i) + 2) (?langEnd - 1) 4 False"
      by (simp add: Let_def)
    with g show "let langSort = sort_key index (filter isLang mid);
                langEnd = (if i + 1 = length langSort then index en
                           else index (langSort ! (i + 1)));
                tok = tokens state' ! (length (tokens state) + 1 + i)
            in content tok =
                 joinLF (map (dropColumns 4 \<circ> lineText)
                   [index (langSort ! i) + 2..<langEnd - 1])"
      by (simp only: Let_def)
  qed
  with ml show ?thesis by blast
qed

lemma nth_opt_replicate: "i < n \<Longrightarrow> nth_opt (replicate n x) i = Some x"
  by (simp add: nth_opt_def)

lemma document_line:
  assumes "documentLines ls" and "ln + 1 < length ls"
  shows "lineAt (newStateBlock (joinLF ls)) ln (ls ! ln) \<and>
     nth_opt (bsCount (newStateBlock (joinLF ls))) ln = Some 0"
proof -
  have bs: "bsCount (newStateBlock (joinLF ls)) = replicate (Suc (length ls)) 0"
    by (simp add: newStateBlock_def Let_def hostLines_joinLF[OF assms(1)])
  have "ln < Suc (length ls)" using assms(2) by simp
  then have "nth_opt (bsCount (newStateBlock (joinLF ls))) ln = Some 0"
    unfolding bs by (rule nth_opt_replicate)
  with state_lineAt[OF assms] show ?thesis by simp
qed

text \<open>
  C6. When \<open>parseSnippetBlock\<close> recognizes a region in committing mode, the collected
  meta-lines are a Begin, a middle and an End; the cursor \<open>state.line\<close> is one past the
  End; and for each position \<open>i\<close> of the language markers sorted by index, the token
  pushed for it has as content the lines from the index of the marker plus 2 up to, and
  without, \<open>langEnd - 1\<close>, taken by \<open>getLines\<close> with the indent 4, where \<open>langEnd\<close> is the
  index of the next language marker or, for the last, of the End.

  When the lines before the last line of the span are lines of a document outside any quote
  (\<open>lineText ln\<close> is the text of the line \<open>ln\<close>, a newline follows it, and \<open>bsCount\<close> is 0),
  the content of the token is these lines, each without its leading spaces and tabs as far
  as they fill four columns, joined by newlines; and so is the result of \<open>getLines\<close> with
  the indent 4 on any such lines. What is removed from a line is at most four characters,
  all of them spaces or tabs: from a line that starts with \<open>k\<close> spaces, four spaces when
  \<open>k\<close> is at least 4, and otherwise the \<open>k\<close> spaces and a tab that follows them, if one
  does. So the de-indent is not unconditional: a line indented by less than four columns
  loses only the indentation it has. When each of the lines is empty or starts with four
  spaces, the result is these lines without their first four columns, an empty line as an
  empty line, joined by newlines.
\<close>

theorem parseSnippetBlock_content_spans:
  "(parseSnippetBlock state startLine endLine False = Some (True, state') \<longrightarrow>
      (\<exists>bg mid en.
         collectMetaLines state startLine endLine = bg # mid @ [en] \<and> isBegin bg \<and> isEnd en \<and>
         line state' = index en + 1 \<and>
         length (tokens state') = length (tokens state) + length (filter isLang mid) + 2 \<and>
         (\<forall>i<length (filter isLang mid).
            let langSort = sort_key index (filter isLang mid);
                langEnd = (if i + 1 = length langSort then index en
                           else index (langSort ! (i + 1)));
                tok = tokens state' ! (length (tokens state) + 1 + i)
            in type tok = ''stack_snippet_lang'' \<and>
               attrGet tok ''language'' = Some (language (langSort ! i)) \<and>
               tokMap tok = Some (index (langSort ! i), langEnd) \<and>
               content tok =
                 getLines state (index (langSort ! i) + 2) (langEnd - 1) 4 False))) \<and>
   (parseSnippetBlock state startLine endLine False = Some (True, state') \<and>
    (\<forall>ln. ln + 1 < endLine \<longrightarrow>
       lineAt state ln (lineText ln) \<and> nth_opt (bsCount state) ln = Some 0) \<longrightarrow>
      (\<exists>bg mid en.
         collectMetaLines state startLine endLine = bg # mid @ [en] \<and>
         (\<forall>i<length (filter isLang mid).
            let langSort = sort_key index (filter isLang mid);
                langEnd = (if i + 1 = length langSort then index en
                           else index (langSort ! (i + 1)));
                tok = tokens state' ! (length (tokens state) + 1 + i)
            in content tok =
                 joinLF (map (dropColumns 4 \<circ> lineText)
                   [index (langSort ! i) + 2..<langEnd - 1])))) \<and>
   (ls \<noteq> [] \<and>
    (\<forall>i<length ls. lineAt state (b + i) (ls ! i) \<and>
        nth_opt (bsCount state) (b + i) = Some 0) \<longrightarrow>
      getLines state b (b + length ls) 4 False = joinLF (map (dropColumns 4) ls)) \<and>
   (ps \<noteq> [] \<and>
    (\<forall>i<length ps. lineAt state (c + i) (ps ! i) \<and>
        (ps ! i = [] \<or> take 4 (ps ! i) = ''    '')) \<longrightarrow>
      getLines state c (c + length ps) 4 False = joinLF (map (drop 4) ps)) \<and>
   (\<exists>p. l = p @ dropColumns 4 l \<and> length p \<le> 4 \<and> list_all isSpace p) \<and>
   (r = [] \<or> hd r \<noteq> CHR 0x20 \<longrightarrow>
      dropColumns 4 (replicate k (CHR 0x20) @ r) =
        (if 4 \<le> k then replicate (k - 4) (CHR 0x20) @ r
         else if r \<noteq> [] \<and> hd r = CHR 0x09 then tl r else r))"
proof (intro conjI impI)
  assume "parseSnippetBlock state startLine endLine False = Some (True, state')"
  then show "\<exists>bg mid en.
         collectMetaLines state startLine endLine = bg # mid @ [en] \<and> isBegin bg \<and> isEnd en \<and>
         line state' = index en + 1 \<and>
         length (tokens state') = length (tokens state) + length (filter isLang mid) + 2 \<and>
         (\<forall>i<length (filter isLang mid).
            let langSort = sort_key index (filter isLang mid);
                langEnd = (if i + 1 = length langSort then index en
                           else index (langSort ! (i + 1)));
                tok = tokens state' ! (length (tokens state) + 1 + i)
            in type tok = ''stack_snippet_lang'' \<and>
               attrGet tok ''language'' = Some (language (langSort ! i)) \<and>
               tokMap tok = Some (index (langSort ! i), langEnd) \<and>
               content tok =
                 getLines state (index (langSort ! i) + 2) (langEnd - 1) 4 False)"
    by (rule content_spans)
next
  assume "parseSnippetBlock state startLine endLine False = Some (True, state') \<and>
    (\<forall>ln. ln + 1 < endLine \<longrightarrow>
       lineAt state ln (lineText ln) \<and> nth_opt (bsCount state) ln = Some 0)"
  then show "\<exists>bg mid en.
         collectMetaLines state startLine endLine = bg # mid @ [en] \<and>
         (\<forall>i<length (filter isLang mid).
            let langSort = sort_key index (filter isLang mid);
                langEnd = (if i + 1 = length langSort then index en
                           else index (langSort ! (i + 1)));
                tok = tokens state' ! (length (tokens state) + 1 + i)
            in content tok =
                 joinLF (map (dropColumns 4 \<circ> lineText)
                   [index (langSort ! i) + 2..<langEnd - 1]))"
    using content_lines by blast
next
  assume "ls \<noteq> [] \<and>
    (\<forall>i<length ls. lineAt state (b + i) (ls ! i) \<and>
        nth_opt (bsCount state) (b + i) = Some 0)"
  then show "getLines state b (b + length ls) 4 False = joinLF (map (dropColumns 4) ls)"
    using getLines_dropColumns by blast
next
  assume "ps \<noteq> [] \<and>
    (\<forall>i<length ps. lineAt state (c + i) (ps ! i) \<and>
        (ps ! i = [] \<or> take 4 (ps ! i) = ''    ''))"
  then show "getLines state c (c + length ps) 4 False = joinLF (map (drop 4) ps)"
    using getLines_deindent by blast
next
  show "\<exists>p. l = p @ dropColumns 4 l \<and> length p \<le> 4 \<and> list_all isSpace p"
    by (rule dropColumns_prefix)
next
  assume "r = [] \<or> hd r \<noteq> CHR 0x20"
  then show "dropColumns 4 (replicate k (CHR 0x20) @ r) =
        (if 4 \<le> k then replicate (k - 4) (CHR 0x20) @ r
         else if r \<noteq> [] \<and> hd r = CHR 0x09 then tl r else r)"
    by (rule dropColumns_spaces)
qed

theorem parseSnippetBlock_content_spans_witness:
  "(\<exists>state'. parseSnippetBlock (newStateBlock (joinLF underIndentedLines)) 0 11 False =
        Some (True, state') \<and>
      line state' = 11 \<and>
      content (tokens state' ! 1) = joinLF [''abcdef'', ''gh'', '' five'', [], ''pad'']) \<and>
   getLines (newStateBlock (joinLF underIndentedLines)) 4 9 4 False =
     joinLF [''abcdef'', ''gh'', '' five'', [], ''pad''] \<and>
   getLines (newStateBlock (joinLF underIndentedLines)) 7 9 4 False = joinLF [[], ''pad''] \<and>
   dropColumns 4 ''  gh'' = ''gh''"
proof -
  let ?st = "newStateBlock (joinLF underIndentedLines)"
  let ?st' = "snd (the (parseSnippetBlock ?st 0 11 False))"
  let ?ls = "[''abcdef'', ''  gh'', ''     five'', [], ''    pad'']"
  let ?ps = "[[], ''    pad'']"
  have doc: "documentLines underIndentedLines"
    by (simp add: documentLines_def underIndentedLines_def isSpace_def LF_def)
  have len: "length underIndentedLines = 11"
    by (simp add: underIndentedLines_def)
  have p: "parseSnippetBlock ?st 0 11 False = Some (True, ?st')"
    by code_simp
  have ml: "collectMetaLines ?st 0 11 =
      [Begin 0 ''false'' ''false'' ''false'' ''true'' ''false'', Lang 2 ''js'', End 10]"
    by code_simp
  have all: "\<forall>ln. ln + 1 < 11 \<longrightarrow>
      lineAt ?st ln (underIndentedLines ! ln) \<and> nth_opt (bsCount ?st) ln = Some 0"
    using document_line[OF doc] by (simp add: len)
  have ls: "\<forall>i<length ?ls. lineAt ?st (4 + i) (?ls ! i) \<and>
      nth_opt (bsCount ?st) (4 + i) = Some 0"
  proof (intro allI impI)
    fix i assume "i < length ?ls"
    then have i: "i < 5" by simp
    then have "(4 + i) + 1 < 11" by simp
    with all have "lineAt ?st (4 + i) (underIndentedLines ! (4 + i)) \<and>
        nth_opt (bsCount ?st) (4 + i) = Some 0"
      by blast
    moreover have "underIndentedLines ! (4 + i) = ?ls ! i"
      using i by (auto simp: underIndentedLines_def less_Suc_eq eval_nat_numeral)
    ultimately show "lineAt ?st (4 + i) (?ls ! i) \<and> nth_opt (bsCount ?st) (4 + i) = Some 0"
      by simp
  qed
  have ps: "\<forall>i<length ?ps. lineAt ?st (7 + i) (?ps ! i) \<and>
      (?ps ! i = [] \<or> take 4 (?ps ! i) = ''    '')"
  proof (intro allI impI)
    fix i assume "i < length ?ps"
    then have i: "i < 2" by simp
    then have "(7 + i) + 1 < 11" by simp
    with all have "lineAt ?st (7 + i) (underIndentedLines ! (7 + i))" by blast
    moreover have "underIndentedLines ! (7 + i) = ?ps ! i"
      using i by (auto simp: underIndentedLines_def less_Suc_eq eval_nat_numeral)
    moreover have "?ps ! i = [] \<or> take 4 (?ps ! i) = ''    ''"
      using i by (auto simp: less_Suc_eq eval_nat_numeral)
    ultimately show "lineAt ?st (7 + i) (?ps ! i) \<and>
        (?ps ! i = [] \<or> take 4 (?ps ! i) = ''    '')"
      by simp
  qed
  note inst = parseSnippetBlock_content_spans[where state = ?st and startLine = 0
      and endLine = 11 and state' = ?st' and lineText = "\<lambda>ln. underIndentedLines ! ln"
      and ls = ?ls and b = 4 and ps = ?ps and c = 7 and k = 2 and r = "''gh''"]
  from inst p obtain bg mid en where
    "collectMetaLines ?st 0 11 = bg # mid @ [en]" and "line ?st' = index en + 1"
    by blast
  then have "last (collectMetaLines ?st 0 11) = en" by simp
  then have "en = End 10" by (simp add: ml)
  with \<open>line ?st' = index en + 1\<close> have l: "line ?st' = 11" by simp
  from inst p all obtain bg' mid' en' where
    ml': "collectMetaLines ?st 0 11 = bg' # mid' @ [en']"
    and ct: "\<forall>i<length (filter isLang mid').
            let langSort = sort_key index (filter isLang mid');
                langEnd = (if i + 1 = length langSort then index en'
                           else index (langSort ! (i + 1)));
                tok = tokens ?st' ! (length (tokens ?st) + 1 + i)
            in content tok =
                 joinLF (map (dropColumns 4 \<circ> (\<lambda>ln. underIndentedLines ! ln))
                   [index (langSort ! i) + 2..<langEnd - 1])"
    by blast
  from ml' have "last (collectMetaLines ?st 0 11) = en'"
    "butlast (tl (collectMetaLines ?st 0 11)) = mid'"
    by simp_all
  then have en': "en' = End 10" and mid': "mid' = [Lang 2 ''js'']"
    by (simp_all add: ml)
  have t0: "tokens ?st = []" by (rule state_fields(3)[OF doc])
  from ct[rule_format, of 0] have "content (tokens ?st' ! 1) =
      joinLF (map (dropColumns 4 \<circ> (\<lambda>ln. underIndentedLines ! ln)) [4..<9])"
    by (simp add: en' mid' t0 Let_def)
  also have "\<dots> = joinLF [''abcdef'', ''gh'', '' five'', [], ''pad'']"
    by code_simp
  finally have d0: "content (tokens ?st' ! 1) =
      joinLF [''abcdef'', ''gh'', '' five'', [], ''pad'']" .
  from inst ls have g: "getLines ?st 4 9 4 False =
      joinLF [''abcdef'', ''gh'', '' five'', [], ''pad'']"
    by (simp add: eval_nat_numeral)
  from inst ps have h: "getLines ?st 7 9 4 False = joinLF [[], ''pad'']"
    by simp
  from inst have d: "dropColumns 4 ''  gh'' = ''gh''"
    by (simp add: eval_nat_numeral)
  show ?thesis by (intro conjI exI[of _ ?st'] p l d0 g h d)
qed

theorem parseSnippetBlock_content_spans_counterexample:
  "map_option (map content \<circ> tokens \<circ> snd)
     (parseSnippetBlock (newStateBlock (joinLF underIndentedLines)) 0 11 False) =
     Some [[], joinLF [''abcdef'', ''gh'', '' five'', [], ''pad''], []] \<and>
   take 5 (drop 4 underIndentedLines) = [''abcdef'', ''  gh'', ''     five'', [], ''    pad''] \<and>
   joinLF [''abcdef'', ''gh'', '' five'', [], ''pad''] \<noteq>
     joinLF (map (drop 4) [''abcdef'', ''  gh'', ''     five'', [], ''    pad''])"
  by code_simp

end
